theory Spec2Isabelle
  imports Main "HOL-Library.Word"
begin

section \<open>Vulkan vocabulary\<close>

text \<open>
  Vulkan object handles are opaque 64-bit values; \<open>VK_NULL_HANDLE\<close> is the zero handle.
\<close>

type_synonym handle = "64 word"

definition VK_NULL_HANDLE :: handle where
  "VK_NULL_HANDLE = 0"

type_synonym VkExtent2D = "32 word \<times> 32 word"

text \<open>
  The status codes that \<open>vkAcquireNextImageKHR\<close> and \<open>vkQueuePresentKHR\<close> can return.
  \<open>VK_SUCCESS\<close>, \<open>VK_NOT_READY\<close>, \<open>VK_TIMEOUT\<close> and \<open>VK_SUBOPTIMAL_KHR\<close> are the
  non-negative codes, the \<open>VK_ERROR_\<close> ones are negative.
\<close>

datatype VkResult =
    VK_SUCCESS
  | VK_NOT_READY
  | VK_TIMEOUT
  | VK_SUBOPTIMAL_KHR
  | VK_ERROR_OUT_OF_DATE_KHR
  | VK_ERROR_DEVICE_LOST
  | VK_ERROR_SURFACE_LOST_KHR
  | VK_ERROR_OUT_OF_HOST_MEMORY
  | VK_ERROR_OUT_OF_DEVICE_MEMORY
  | VK_ERROR_FULL_SCREEN_EXCLUSIVE_MODE_LOST_EXT

text \<open>
  The C++ failures of the engine: \<open>std::runtime_error\<close> with its message, the
  \<open>std::out_of_range\<close> of a checked \<open>vector::at\<close>, and the dereference of an empty
  \<open>unique_ptr\<close> (undefined behaviour in C++, a failure here).
\<close>

datatype error = runtime_error string | out_of_range | null_dereference

text \<open>
  The calls into the driver, the window system and the engine's other modules that the
  renderer makes, in the order it makes them. Calls on a frame slot carry the slot, calls
  that destroy an object carry its handle.
\<close>

datatype call =
    vkWaitForFences "32 word"
  | vkAcquireNextImageKHR "32 word" VkResult
  | vkResetFences "32 word"
  | vkResetCommandBuffer "32 word"
  | recordGraphicsCommands "32 word" "32 word"
  | submitCommandBuffer "32 word"
  | vkQueuePresentKHR "32 word" VkResult
  | waitForWindowFocus
  | vkDeviceWaitIdle
  | glfwGetFramebufferSize int int
  | glfwWaitEvents
  | vkDestroyFramebuffer handle
  | vkDestroyImageView handle
  | vkDestroySwapchainKHR handle
  | SwapChain_createSwapChain
  | ImageViews_createImageViews
  | FrameBuffers_createFrameBuffers
  | waitForDeviceIdle
  | delete_SwapChain
  | delete_FrameBuffers
  | make_unique_SwapChain
  | make_unique_ImageViews
  | make_unique_FrameBuffers

text \<open>A function either returns (with a value and the state) or throws (leaving a state).\<close>

datatype ('a, 's) outcome = Returns 'a 's | Throws error 's

fun state_of :: "('a, 's) outcome \<Rightarrow> 's" where
  "state_of (Returns _ s) = s"
| "state_of (Throws _ s) = s"

fun returned :: "('a, 's) outcome \<Rightarrow> bool" where
  "returned (Returns _ _) = True"
| "returned (Throws _ _) = False"

section \<open>Destroying a vector of handles\<close>

text \<open>
  The loop shared by \<open>Vulkan::destroySwapChain\<close> and \<open>ImageViews::~ImageViews\<close>:
  \<^verbatim>\<open>for (size_t i = 0; i < v.size(); i++) { vkDestroy...(device, v[i], nullptr); v[i] = VK_NULL_HANDLE; }\<close>
  It returns the vector as the loop leaves it and the calls it made.
\<close>

function destroy_each :: "(handle \<Rightarrow> call) \<Rightarrow> handle list \<Rightarrow> nat \<Rightarrow> call list
    \<Rightarrow> handle list \<times> call list" where
  "destroy_each destroy v i cs =
     (if i < length v
      then destroy_each destroy (v[i := VK_NULL_HANDLE]) (i + 1) (cs @ [destroy (v ! i)])
      else (v, cs))"
  by pat_completeness auto
termination
  by (relation "measure (\<lambda>(destroy, v, i, cs). length v - i)") auto

declare destroy_each.simps [simp del]

section \<open>The renderer with the swap chain held in the Vulkan object\<close>

text \<open>
  The variant of \<open>Vulkan.cxx\<close> in which the \<open>Vulkan\<close> class itself holds the swap chain,
  its images, image views and framebuffers, and has \<open>destroySwapChain\<close>. Its members carry
  the suffix \<open>_p0\<close> here. \<open>calls_p0\<close> records the calls made so far.
\<close>

record Vulkan_p0 =
  swapChain_p0 :: handle
  swapChainImages_p0 :: "handle list"
  swapChainImageFormat_p0 :: nat
  swapChainExtent_p0 :: VkExtent2D
  swapChainImageViews_p0 :: "handle list"
  swapChainFrameBuffers_p0 :: "handle list"
  renderPass_p0 :: handle
  graphicsPipeline_p0 :: handle
  pipelineLayout_p0 :: handle
  graphicsCommandPool_p0 :: handle
  transferCommandPool_p0 :: handle
  calls_p0 :: "call list"

definition waitForDeviceIdle_p0 :: "Vulkan_p0 \<Rightarrow> Vulkan_p0" where
  "waitForDeviceIdle_p0 s = s\<lparr>calls_p0 := calls_p0 s @ [vkDeviceWaitIdle]\<rparr>"

definition destroySwapChain :: "Vulkan_p0 \<Rightarrow> Vulkan_p0" where
  "destroySwapChain s =
     (let (fbs, cs1) = destroy_each vkDestroyFramebuffer (swapChainFrameBuffers_p0 s) 0 (calls_p0 s);
          (ivs, cs2) = destroy_each vkDestroyImageView (swapChainImageViews_p0 s) 0 cs1
      in s\<lparr>swapChainFrameBuffers_p0 := fbs,
            swapChainImageViews_p0 := ivs,
            calls_p0 := cs2 @ [vkDestroySwapchainKHR (swapChain_p0 s)]\<rparr>)"

text \<open>
  What the window system and the functions of \<open>SwapChain\<close>, \<open>ImageViews\<close> and
  \<open>FrameBuffers\<close> (not among the sources) answer during one rebuild:
  \<open>framebufferSize k\<close> is the answer to the \<open>k\<close>-th call of \<open>glfwGetFramebufferSize\<close>,
  the others give the new values of the output parameters, or the exception thrown. A
  function that throws is taken to leave its output parameters as they were.
\<close>

record driver_p0 =
  framebufferSize :: "nat \<Rightarrow> int \<times> int"
  createSwapChain_ret :: "error + handle \<times> handle list \<times> nat \<times> VkExtent2D"
  createImageViews_ret :: "handle list \<Rightarrow> nat \<Rightarrow> error + handle list"
  createFrameBuffers_ret :: "handle list \<Rightarrow> handle \<Rightarrow> VkExtent2D \<Rightarrow> error + handle list"

text \<open>
  The loop of \<open>recreateSwapChain\<close> that pauses the renderer while the window is minimized:
  \<^verbatim>\<open>while (width == 0 || height == 0) { glfwGetFramebufferSize(engineWindow, &width, &height); glfwWaitEvents(); }\<close>
  \<open>k\<close> counts the size queries made so far, \<open>wh\<close> is the last answer. The loop need not
  end, so its result is an option: \<open>None\<close> when it runs forever.
\<close>

partial_function (option) await_unminimized ::
    "(nat \<Rightarrow> int \<times> int) \<Rightarrow> nat \<Rightarrow> int \<times> int \<Rightarrow> call list \<Rightarrow> call list option" where
  "await_unminimized answer k wh cs =
     (if fst wh = 0 \<or> snd wh = 0
      then await_unminimized answer (k + 1) (answer k)
             (cs @ [glfwGetFramebufferSize (fst (answer k)) (snd (answer k)), glfwWaitEvents])
      else Some cs)"

text \<open>The part of \<open>recreateSwapChain\<close> that follows the loop.\<close>

definition rebuild_p0 :: "driver_p0 \<Rightarrow> Vulkan_p0 \<Rightarrow> (unit, Vulkan_p0) outcome" where
  "rebuild_p0 drv s0 =
     (let s1 = waitForDeviceIdle_p0 s0;
          s2 = destroySwapChain s1;
          s3 = s2\<lparr>calls_p0 := calls_p0 s2 @ [SwapChain_createSwapChain]\<rparr>
      in case createSwapChain_ret drv of
           Inl e \<Rightarrow> Throws e s3
         | Inr (chain, images, format, extent) \<Rightarrow>
            (let s4 = s3\<lparr>swapChain_p0 := chain, swapChainImages_p0 := images,
                         swapChainImageFormat_p0 := format, swapChainExtent_p0 := extent,
                         calls_p0 := calls_p0 s3 @ [ImageViews_createImageViews]\<rparr>
             in case createImageViews_ret drv (swapChainImages_p0 s4) (swapChainImageFormat_p0 s4) of
                  Inl e \<Rightarrow> Throws e s4
                | Inr views \<Rightarrow>
                   (let s5 = s4\<lparr>swapChainImageViews_p0 := views,
                                calls_p0 := calls_p0 s4 @ [FrameBuffers_createFrameBuffers]\<rparr>
                    in case createFrameBuffers_ret drv (swapChainImageViews_p0 s5)
                              (renderPass_p0 s5) (swapChainExtent_p0 s5) of
                         Inl e \<Rightarrow> Throws e s5
                       | Inr fbs \<Rightarrow> Returns () (s5\<lparr>swapChainFrameBuffers_p0 := fbs\<rparr>))))"

definition recreateSwapChain_p0 ::
    "driver_p0 \<Rightarrow> Vulkan_p0 \<Rightarrow> (unit, Vulkan_p0) outcome option" where
  "recreateSwapChain_p0 drv s =
     (let wh = framebufferSize drv 0
      in case await_unminimized (framebufferSize drv) 1 wh
                (calls_p0 s @ [glfwGetFramebufferSize (fst wh) (snd wh)]) of
           None \<Rightarrow> None
         | Some cs \<Rightarrow> Some (rebuild_p0 drv (s\<lparr>calls_p0 := cs\<rparr>)))"

text \<open>
  The first version of \<open>waitForPreviousFrame\<close>, from the variant of \<open>Vulkan.cxx\<close> that has
  \<open>initialize\<close> and \<open>shutdown\<close> and checks no status: it resets the fence right after the wait.
\<close>

definition waitForPreviousFrame_initial :: "32 word \<Rightarrow> call list \<Rightarrow> call list" where
  "waitForPreviousFrame_initial frameIndex cs =
     cs @ [vkWaitForFences frameIndex, vkResetFences frameIndex]"

section \<open>The renderer with the swap chain held in modules\<close>

text \<open>
  \<open>src/vulkan/Vulkan.cxx\<close>: the \<open>Vulkan\<close> object owns a \<open>SwapChain\<close>, an \<open>ImageViews\<close> and a
  \<open>FrameBuffers\<close> module through \<open>unique_ptr\<close>s (\<open>None\<close> is the empty pointer). Of the
  render pass and pipeline modules, which the frame loop only reads, the state keeps the
  handle they hold.
\<close>

record SwapChain =
  swapChain :: handle
  swapChainImages :: "handle list"
  swapChainImageFormat :: nat
  swapChainExtent :: VkExtent2D

record ImageViews =
  swapChainImageViews :: "handle list"

record FrameBuffers =
  swapChainFrameBuffers :: "handle list"

record Vulkan =
  frameIndex :: "32 word"
  framebufferResized :: bool
  m_swapChain :: "SwapChain option"
  m_imageViews :: "ImageViews option"
  m_frameBuffers :: "FrameBuffers option"
  m_renderPass :: handle
  m_graphicsPipeline :: handle
  graphicsCommandPool :: handle
  transferCommandPool :: handle
  calls :: "call list"

text \<open>
  What the driver and the \<open>SwapChain\<close> constructor (not among the sources) answer during one
  rebuild: the new \<open>SwapChain\<close> object or the exception of its constructor, and the status
  and handle that \<open>vkCreateImageView\<close> and \<open>vkCreateFramebuffer\<close> give for an image or view.
\<close>

record rebuild =
  SwapChain_ret :: "error + SwapChain"
  vkCreateImageView_ret :: "handle \<Rightarrow> VkResult \<times> handle"
  vkCreateFramebuffer_ret :: "handle \<Rightarrow> VkResult \<times> handle"

text \<open>
  What the environment does during one iteration of the frame loop: whether the window
  system reported a resize while events were polled, the status of the acquire and the
  value it leaves in \<open>imageIndex\<close> (indeterminate when the driver wrote none), whether
  \<open>CommandBuffer::submitCommandBuffer\<close> throws, the status of the present, and the
  answers during a rebuild started by the acquire or by the present.
\<close>

record frame =
  resized :: bool
  acquire :: "VkResult \<times> 32 word"
  acquire_rebuild :: rebuild
  submit_ret :: "error option"
  present :: VkResult
  present_rebuild :: rebuild

subsection \<open>ImageViews\<close>

text \<open>
  The loop of the constructor: one \<open>vkCreateImageView\<close> per swap-chain image, written to
  \<open>swapChainImageViews.at(i)\<close>; any status but \<open>VK_SUCCESS\<close> throws.
\<close>

function ImageViews_loop ::
    "(handle \<Rightarrow> VkResult \<times> handle) \<Rightarrow> handle list \<Rightarrow> nat \<Rightarrow> handle list \<Rightarrow> error + handle list" where
  "ImageViews_loop create images i views =
     (if i < length images then
        (if i < length views then
           (case create (images ! i) of
              (result, view) \<Rightarrow>
                if result \<noteq> VK_SUCCESS
                then Inl (runtime_error ''Failed to create Vulkan image views!'')
                else ImageViews_loop create images (i + 1) (views[i := view]))
         else Inl out_of_range)
      else Inr views)"
  by pat_completeness auto
termination
  by (relation "measure (\<lambda>(create, images, i, views). length images - i)") auto

declare ImageViews_loop.simps [simp del]

definition ImageViews_ctor :: "rebuild \<Rightarrow> Vulkan \<Rightarrow> error + ImageViews" where
  "ImageViews_ctor drv m_vulkan =
     (case m_swapChain m_vulkan of
        None \<Rightarrow> Inl null_dereference
      | Some sc \<Rightarrow>
         (case ImageViews_loop (vkCreateImageView_ret drv) (swapChainImages sc) 0
                 (replicate (length (swapChainImages sc)) VK_NULL_HANDLE) of
            Inl e \<Rightarrow> Inl e
          | Inr views \<Rightarrow> Inr \<lparr>swapChainImageViews = views\<rparr>))"

definition ImageViews_dtor :: "ImageViews \<Rightarrow> call list \<Rightarrow> ImageViews \<times> call list" where
  "ImageViews_dtor iv cs =
     (let (views, cs') = destroy_each vkDestroyImageView (swapChainImageViews iv) 0 cs
      in (iv\<lparr>swapChainImageViews := views\<rparr>, cs'))"

subsection \<open>FrameBuffers\<close>

text \<open>
  Modelled from the spec: the constructor \<open>FrameBuffers::FrameBuffers\<close> is not among the
  sources. Section 4.3: it creates one render target binding per view, replacing any prior
  set; section 7: a framebuffer creation failure is fatal.
\<close>

fun FrameBuffers_bindings ::
    "(handle \<Rightarrow> VkResult \<times> handle) \<Rightarrow> handle list \<Rightarrow> error + handle list" where
  "FrameBuffers_bindings create [] = Inr []"
| "FrameBuffers_bindings create (view # views) =
     (case create view of
        (result, fb) \<Rightarrow>
          if result \<noteq> VK_SUCCESS then Inl (runtime_error ''Failed to create framebuffer!'')
          else (case FrameBuffers_bindings create views of
                  Inl e \<Rightarrow> Inl e
                | Inr fbs \<Rightarrow> Inr (fb # fbs)))"

text \<open>
  Modelled from the spec: the constructor reads the image views of the \<open>Vulkan\<close> object it
  is given, as the constructor of \<open>ImageViews\<close> reads the swap-chain images.
\<close>

definition FrameBuffers_ctor :: "rebuild \<Rightarrow> Vulkan \<Rightarrow> error + FrameBuffers" where
  "FrameBuffers_ctor drv m_vulkan =
     (case m_imageViews m_vulkan of
        None \<Rightarrow> Inl null_dereference
      | Some iv \<Rightarrow>
         (case FrameBuffers_bindings (vkCreateFramebuffer_ret drv) (swapChainImageViews iv) of
            Inl e \<Rightarrow> Inl e
          | Inr fbs \<Rightarrow> Inr \<lparr>swapChainFrameBuffers = fbs\<rparr>))"

subsection \<open>Swap chain recreation\<close>

text \<open>
  \<open>unique_ptr::reset()\<close>: destroys the owned object, if there is one, and leaves the pointer
  empty. The destructors of \<open>SwapChain\<close> and \<open>FrameBuffers\<close> are not among the sources;
  their run is one call. So are \<open>Window::waitForWindowFocus\<close> and
  \<open>LogicalDevice::waitForDeviceIdle\<close>, each one call that returns. The three resets leave
  the pointers empty, so each assignment of a new module destroys nothing.
\<close>

definition reset_m_swapChain :: "Vulkan \<Rightarrow> Vulkan" where
  "reset_m_swapChain s =
     (case m_swapChain s of
        None \<Rightarrow> s
      | Some sc \<Rightarrow> s\<lparr>m_swapChain := None, calls := calls s @ [delete_SwapChain]\<rparr>)"

definition reset_m_imageViews :: "Vulkan \<Rightarrow> Vulkan" where
  "reset_m_imageViews s =
     (case m_imageViews s of
        None \<Rightarrow> s
      | Some iv \<Rightarrow> s\<lparr>m_imageViews := None, calls := snd (ImageViews_dtor iv (calls s))\<rparr>)"

definition reset_m_frameBuffers :: "Vulkan \<Rightarrow> Vulkan" where
  "reset_m_frameBuffers s =
     (case m_frameBuffers s of
        None \<Rightarrow> s
      | Some fb \<Rightarrow> s\<lparr>m_frameBuffers := None, calls := calls s @ [delete_FrameBuffers]\<rparr>)"

definition recreateSwapChain :: "rebuild \<Rightarrow> Vulkan \<Rightarrow> (unit, Vulkan) outcome" where
  "recreateSwapChain drv s0 =
     (let s1 = s0\<lparr>calls := calls s0 @ [waitForWindowFocus]\<rparr>;
          s2 = s1\<lparr>calls := calls s1 @ [waitForDeviceIdle]\<rparr>;
          s3 = reset_m_swapChain s2;
          s4 = reset_m_imageViews s3;
          s5 = reset_m_frameBuffers s4;
          s6 = s5\<lparr>calls := calls s5 @ [make_unique_SwapChain]\<rparr>
      in case SwapChain_ret drv of
           Inl e \<Rightarrow> Throws e s6
         | Inr sc \<Rightarrow>
            (let s7 = s6\<lparr>m_swapChain := Some sc, calls := calls s6 @ [make_unique_ImageViews]\<rparr>
             in case ImageViews_ctor drv s7 of
                  Inl e \<Rightarrow> Throws e s7
                | Inr iv \<Rightarrow>
                   (let s8 = s7\<lparr>m_imageViews := Some iv,
                                calls := calls s7 @ [make_unique_FrameBuffers]\<rparr>
                    in case FrameBuffers_ctor drv s8 of
                         Inl e \<Rightarrow> Throws e s8
                       | Inr fb \<Rightarrow> Returns () (s8\<lparr>m_frameBuffers := Some fb\<rparr>))))"

subsection \<open>One frame\<close>

definition waitForPreviousFrame :: "Vulkan \<Rightarrow> Vulkan" where
  "waitForPreviousFrame s = s\<lparr>calls := calls s @ [vkWaitForFences (frameIndex s)]\<rparr>"

definition getNextSwapChainImage :: "frame \<Rightarrow> Vulkan \<Rightarrow> (32 word, Vulkan) outcome" where
  "getNextSwapChainImage f s0 =
     (let (result, imageIndex) = acquire f;
          s1 = s0\<lparr>calls := calls s0 @ [vkAcquireNextImageKHR (frameIndex s0) result]\<rparr>
      in if result = VK_ERROR_OUT_OF_DATE_KHR then
           (case recreateSwapChain (acquire_rebuild f) s1 of
              Throws e s2 \<Rightarrow> Throws e s2
            | Returns _ s2 \<Rightarrow> Returns imageIndex s2)
         else if result \<noteq> VK_SUCCESS \<and> result \<noteq> VK_SUBOPTIMAL_KHR then
           Throws (runtime_error ''Failed to acquire swap chain image!'') s1
         else Returns imageIndex (s1\<lparr>calls := calls s1 @ [vkResetFences (frameIndex s1)]\<rparr>))"

text \<open>
  \<open>CommandBuffer::recordGraphicsCommands\<close> and \<open>CommandBuffer::submitCommandBuffer\<close> are not
  among the sources. The recording is one call; the submission is one call that may throw,
  as the environment says.
\<close>

definition resetGraphicsCmdBuffer :: "32 word \<Rightarrow> Vulkan \<Rightarrow> Vulkan" where
  "resetGraphicsCmdBuffer imageIndex s =
     s\<lparr>calls := calls s @ [vkResetCommandBuffer (frameIndex s),
                           recordGraphicsCommands (frameIndex s) imageIndex]\<rparr>"

definition submitGraphicsCmdBuffer :: "frame \<Rightarrow> Vulkan \<Rightarrow> (unit, Vulkan) outcome" where
  "submitGraphicsCmdBuffer f s =
     (let s1 = s\<lparr>calls := calls s @ [submitCommandBuffer (frameIndex s)]\<rparr>
      in case submit_ret f of
           Some e \<Rightarrow> Throws e s1
         | None \<Rightarrow> Returns () s1)"

definition presentImageBuffer :: "frame \<Rightarrow> 32 word \<Rightarrow> Vulkan \<Rightarrow> (unit, Vulkan) outcome" where
  "presentImageBuffer f imageIndex s0 =
     (let result = present f;
          s1 = s0\<lparr>calls := calls s0 @ [vkQueuePresentKHR imageIndex result]\<rparr>
      in if result = VK_ERROR_OUT_OF_DATE_KHR \<or> result = VK_SUBOPTIMAL_KHR
            \<or> framebufferResized s1 then
           recreateSwapChain (present_rebuild f) (s1\<lparr>framebufferResized := False\<rparr>)
         else if result \<noteq> VK_SUCCESS then
           Throws (runtime_error ''Failed to present the current swap chain image!'') s1
         else Returns () s1)"

text \<open>
  \<open>MAX_FRAMES_IN_FLIGHT\<close> is declared in \<open>Vulkan.h\<close>, which is not among the sources: it
  is a parameter here. The frame index is a \<open>uint32_t\<close>, as in the signatures of the
  first renderer, so \<open>+\<close> and \<open>mod\<close> are those of 32-bit words.
\<close>

definition renderFrame :: "32 word \<Rightarrow> frame \<Rightarrow> Vulkan \<Rightarrow> (unit, Vulkan) outcome" where
  "renderFrame MAX_FRAMES_IN_FLIGHT f s0 =
     (let s1 = waitForPreviousFrame s0
      in case getNextSwapChainImage f s1 of
           Throws e s2 \<Rightarrow> Throws e s2
         | Returns imageIndex s2 \<Rightarrow>
            (let s3 = resetGraphicsCmdBuffer imageIndex s2
             in case submitGraphicsCmdBuffer f s3 of
                  Throws e s4 \<Rightarrow> Throws e s4
                | Returns _ s4 \<Rightarrow>
                   (case presentImageBuffer f imageIndex s4 of
                      Throws e s5 \<Rightarrow> Throws e s5
                    | Returns _ s5 \<Rightarrow>
                        Returns () (s5\<lparr>frameIndex := (frameIndex s5 + 1) mod MAX_FRAMES_IN_FLIGHT\<rparr>))))"

subsection \<open>The frame loop\<close>

text \<open>
  \<^verbatim>\<open>while(!glfwWindowShouldClose(window)) { glfwPollEvents(); renderFrame(); }\<close>
  The list holds one entry per iteration made before the window closes. Polling events
  lets the resize callback set \<open>framebufferResized\<close>.
\<close>

definition glfwPollEvents :: "frame \<Rightarrow> Vulkan \<Rightarrow> Vulkan" where
  "glfwPollEvents f s = s\<lparr>framebufferResized := framebufferResized s \<or> resized f\<rparr>"

fun frame_loop :: "32 word \<Rightarrow> frame list \<Rightarrow> Vulkan \<Rightarrow> (unit, Vulkan) outcome" where
  "frame_loop MAX_FRAMES_IN_FLIGHT [] s = Returns () s"
| "frame_loop MAX_FRAMES_IN_FLIGHT (f # fs) s =
     (case renderFrame MAX_FRAMES_IN_FLIGHT f (glfwPollEvents f s) of
        Throws e s' \<Rightarrow> Throws e s'
      | Returns _ s' \<Rightarrow> frame_loop MAX_FRAMES_IN_FLIGHT fs s')"

section \<open>Observations on the recorded calls\<close>

text \<open>The slots whose fence was waited on, in order.\<close>

definition fence_waits :: "call list \<Rightarrow> 32 word list" where
  "fence_waits cs = concat (map (\<lambda>c. case c of vkWaitForFences k \<Rightarrow> [k] | _ \<Rightarrow> []) cs)"

text \<open>
  The destroy calls of a call sequence that hit an object already destroyed earlier in
  the sequence. Destroying \<open>VK_NULL_HANDLE\<close> is permitted and does nothing.
\<close>

fun destroys :: "call \<Rightarrow> bool" where
  "destroys (vkDestroyFramebuffer h) = (h \<noteq> VK_NULL_HANDLE)"
| "destroys (vkDestroyImageView h) = (h \<noteq> VK_NULL_HANDLE)"
| "destroys (vkDestroySwapchainKHR h) = (h \<noteq> VK_NULL_HANDLE)"
| "destroys _ = False"

fun double_destroys :: "call list \<Rightarrow> call list \<Rightarrow> call list" where
  "double_destroys dead [] = []"
| "double_destroys dead (c # cs) =
     (if destroys c
      then (if c \<in> set dead then c # double_destroys dead cs
            else double_destroys (c # dead) cs)
      else double_destroys dead cs)"

text \<open>An iteration of the frame loop in which nothing is stale and nothing fails.\<close>

definition steady :: "frame \<Rightarrow> bool" where
  "steady f \<longleftrightarrow> fst (acquire f) = VK_SUCCESS \<and> present f = VK_SUCCESS
      \<and> \<not> resized f \<and> submit_ret f = None"


text \<open>
  The swap chain, its image views and its framebuffers exist and there is one image view
  and one framebuffer per swap-chain image.
\<close>

definition counts_agree :: "Vulkan \<Rightarrow> bool" where
  "counts_agree s \<longleftrightarrow>
     (case (m_swapChain s, m_imageViews s, m_frameBuffers s) of
        (Some sc, Some iv, Some fb) \<Rightarrow>
           length (swapChainImageViews iv) = length (swapChainImages sc)
           \<and> length (swapChainFrameBuffers fb) = length (swapChainImages sc)
      | _ \<Rightarrow> False)"

text \<open>The calls that only a swap chain recreation makes.\<close>

fun rebuild_call :: "call \<Rightarrow> bool" where
  "rebuild_call waitForWindowFocus = True"
| "rebuild_call waitForDeviceIdle = True"
| "rebuild_call delete_SwapChain = True"
| "rebuild_call (vkDestroyImageView h) = True"
| "rebuild_call delete_FrameBuffers = True"
| "rebuild_call make_unique_SwapChain = True"
| "rebuild_call make_unique_ImageViews = True"
| "rebuild_call make_unique_FrameBuffers = True"
| "rebuild_call _ = False"

text \<open>The destroy calls that the three resets of a recreation make, in their order.\<close>

definition teardown_calls :: "Vulkan \<Rightarrow> call list" where
  "teardown_calls s =
     (case m_swapChain s of None \<Rightarrow> [] | Some sc \<Rightarrow> [delete_SwapChain])
     @ (case m_imageViews s of None \<Rightarrow> []
        | Some iv \<Rightarrow> map vkDestroyImageView (swapChainImageViews iv))
     @ (case m_frameBuffers s of None \<Rightarrow> [] | Some fb \<Rightarrow> [delete_FrameBuffers])"

text \<open>The calls that one iteration of the frame loop adds.\<close>

definition frame_calls :: "32 word \<Rightarrow> frame \<Rightarrow> Vulkan \<Rightarrow> call list" where
  "frame_calls MAX_FRAMES_IN_FLIGHT f s =
     drop (length (calls s)) (calls (state_of (renderFrame MAX_FRAMES_IN_FLIGHT f s)))"

text \<open>
  A framebuffer size without area, and the calls of the size queries of a rebuild that
  sees its first size with an area at query \<open>n\<close>: the query before the loop, then \<open>n\<close>
  rounds of the loop.
\<close>

definition zero_area :: "int \<times> int \<Rightarrow> bool" where
  "zero_area wh \<longleftrightarrow> fst wh = 0 \<or> snd wh = 0"

definition polls :: "(nat \<Rightarrow> int \<times> int) \<Rightarrow> nat \<Rightarrow> nat \<Rightarrow> call list" where
  "polls answer k n =
     concat (map (\<lambda>j. [glfwGetFramebufferSize (fst (answer j)) (snd (answer j)), glfwWaitEvents])
               [k..<k + n])"

definition size_queries :: "(nat \<Rightarrow> int \<times> int) \<Rightarrow> nat \<Rightarrow> call list" where
  "size_queries answer n =
     glfwGetFramebufferSize (fst (answer 0)) (snd (answer 0)) # polls answer 1 n"

section \<open>Sample inputs\<close>

text \<open>A renderer state with a swap chain of two images, before any call.\<close>

definition sample_p0 :: Vulkan_p0 where
  "sample_p0 =
     \<lparr>swapChain_p0 = 7, swapChainImages_p0 = [1, 2], swapChainImageFormat_p0 = 44,
      swapChainExtent_p0 = (800, 600), swapChainImageViews_p0 = [11, 12],
      swapChainFrameBuffers_p0 = [21, 22], renderPass_p0 = 3, graphicsPipeline_p0 = 4,
      pipelineLayout_p0 = 5, graphicsCommandPool_p0 = 6, transferCommandPool_p0 = 8,
      calls_p0 = []\<rparr>"

text \<open>
  The module-based renderer in its first frame, with a swap chain of three images, and a
  rebuild that yields a swap chain of two images.
\<close>

definition sample :: Vulkan where
  "sample =
     \<lparr>frameIndex = 0, framebufferResized = False,
      m_swapChain = Some \<lparr>swapChain = 7, swapChainImages = [1, 2, 3],
                          swapChainImageFormat = 44, swapChainExtent = (800, 600)\<rparr>,
      m_imageViews = Some \<lparr>swapChainImageViews = [11, 12, 13]\<rparr>,
      m_frameBuffers = Some \<lparr>swapChainFrameBuffers = [21, 22, 23]\<rparr>,
      m_renderPass = 3, m_graphicsPipeline = 4,
      graphicsCommandPool = 6, transferCommandPool = 8, calls = []\<rparr>"

definition two_images :: rebuild where
  "two_images =
     \<lparr>SwapChain_ret = Inr \<lparr>swapChain = 9, swapChainImages = [31, 32],
                            swapChainImageFormat = 44, swapChainExtent = (1024, 768)\<rparr>,
      vkCreateImageView_ret = (\<lambda>image. (VK_SUCCESS, image + 10)),
      vkCreateFramebuffer_ret = (\<lambda>view. (VK_SUCCESS, view + 10))\<rparr>"

text \<open>
  An iteration in which acquire and present succeed, and one in which the acquire reports
  an out-of-date swap chain (the driver then writes no image index; \<open>imageIndex\<close> holds
  \<open>0\<close> here).
\<close>

definition steady_frame :: frame where
  "steady_frame =
     \<lparr>resized = False, acquire = (VK_SUCCESS, 0), acquire_rebuild = two_images,
      submit_ret = None, present = VK_SUCCESS, present_rebuild = two_images\<rparr>"

definition stale_frame :: frame where
  "stale_frame = steady_frame\<lparr>acquire := (VK_ERROR_OUT_OF_DATE_KHR, 0)\<rparr>"

text \<open>
  A rebuild during which the window is minimized for the first two size queries, and one
  during which it stays minimized.
\<close>

definition minimized_twice :: driver_p0 where
  "minimized_twice =
     \<lparr>framebufferSize = (\<lambda>k. if k < 2 then (0, 0) else (800, 600)),
      createSwapChain_ret = Inr (9, [31, 32], 44, (800, 600)),
      createImageViews_ret = (\<lambda>images format. Inr (map (\<lambda>image. image + 10) images)),
      createFrameBuffers_ret = (\<lambda>views pass extent. Inr (map (\<lambda>view. view + 10) views))\<rparr>"

definition always_minimized :: driver_p0 where
  "always_minimized = minimized_twice\<lparr>framebufferSize := (\<lambda>k. (0, 0))\<rparr>"



text \<open>An iteration before which the window system reports a resize.\<close>

definition resize_frame :: frame where
  "resize_frame = steady_frame\<lparr>resized := True\<rparr>"

section \<open>Facts about the destroy loops\<close>

lemma destroy_each_from:
  "i \<le> length v \<Longrightarrow>
   destroy_each destroy v i cs =
     (take i v @ replicate (length v - i) VK_NULL_HANDLE, cs @ map destroy (drop i v))"
proof (induction destroy v i cs rule: destroy_each.induct)
  case (1 destroy v i cs)
  show ?case
  proof (cases "i < length v")
    case True
    then have step: "destroy_each destroy v i cs =
        destroy_each destroy (v[i := VK_NULL_HANDLE]) (i + 1) (cs @ [destroy (v ! i)])"
      by (simp add: destroy_each.simps [of destroy v i cs])
    have ih: "destroy_each destroy (v[i := VK_NULL_HANDLE]) (i + 1) (cs @ [destroy (v ! i)]) =
        (take (i + 1) (v[i := VK_NULL_HANDLE])
           @ replicate (length (v[i := VK_NULL_HANDLE]) - (i + 1)) VK_NULL_HANDLE,
         (cs @ [destroy (v ! i)]) @ map destroy (drop (i + 1) (v[i := VK_NULL_HANDLE])))"
      using "1.IH" [OF True] True by simp
    have a: "take (Suc i) (v[i := VK_NULL_HANDLE]) = take i v @ [VK_NULL_HANDLE]"
      using True by (simp add: take_Suc_conv_app_nth)
    have b: "replicate (length v - i) VK_NULL_HANDLE
               = VK_NULL_HANDLE # replicate (length v - Suc i) VK_NULL_HANDLE"
      using True by (cases "length v - i") simp_all
    have c: "drop i v = v ! i # drop (Suc i) v"
      using True by (simp add: Cons_nth_drop_Suc)
    show ?thesis
      unfolding step ih by (simp add: a b c)
  next
    case False
    then have stop: "destroy_each destroy v i cs = (v, cs)"
      by (subst destroy_each.simps) simp
    from False "1.prems" have "i = length v" by simp
    then show ?thesis
      unfolding stop by simp
  qed
qed

lemma destroy_each_all:
  "destroy_each destroy v 0 cs = (replicate (length v) VK_NULL_HANDLE, cs @ map destroy v)"
  using destroy_each_from [of 0 v destroy cs] by simp

lemma destroySwapChain_eq:
  "destroySwapChain s =
     s\<lparr>swapChainFrameBuffers_p0 := replicate (length (swapChainFrameBuffers_p0 s)) VK_NULL_HANDLE,
       swapChainImageViews_p0 := replicate (length (swapChainImageViews_p0 s)) VK_NULL_HANDLE,
       calls_p0 := calls_p0 s @ map vkDestroyFramebuffer (swapChainFrameBuffers_p0 s)
                     @ map vkDestroyImageView (swapChainImageViews_p0 s)
                     @ [vkDestroySwapchainKHR (swapChain_p0 s)]\<rparr>"
  by (simp add: destroySwapChain_def destroy_each_all)

lemma destroySwapChain_again:
  "calls_p0 (destroySwapChain (destroySwapChain s)) =
     calls_p0 (destroySwapChain s)
       @ replicate (length (swapChainFrameBuffers_p0 s)) (vkDestroyFramebuffer VK_NULL_HANDLE)
       @ replicate (length (swapChainImageViews_p0 s)) (vkDestroyImageView VK_NULL_HANDLE)
       @ [vkDestroySwapchainKHR (swapChain_p0 s)]"
  by (simp add: destroySwapChain_eq)

section \<open>Facts about the creation of image views and framebuffers\<close>

lemma ImageViews_loop_length:
  "ImageViews_loop create images i views = Inr vs \<Longrightarrow> length vs = length views"
proof (induction create images i views rule: ImageViews_loop.induct)
  case (1 create images i views)
  show ?case
  proof (cases "i < length images \<and> i < length views")
    case True
    obtain r v where c: "create (images ! i) = (r, v)" by (cases "create (images ! i)")
    from "1.prems" True c have ok: "r = VK_SUCCESS"
      by (subst (asm) ImageViews_loop.simps) (simp split: if_splits)
    from "1.prems" True c ok
    have "ImageViews_loop create images (i + 1) (views[i := v]) = Inr vs"
      by (subst (asm) ImageViews_loop.simps) simp
    with "1.IH" [of r v] True c ok show ?thesis by simp
  next
    case False
    with "1.prems" show ?thesis
      by (subst (asm) ImageViews_loop.simps) (auto split: if_splits)
  qed
qed


lemma ImageViews_loop_Inr:
  "ImageViews_loop create images i views = Inr vs \<Longrightarrow>
   length views = length images \<Longrightarrow> i \<le> length images \<Longrightarrow>
   vs = take i views @ map (\<lambda>image. snd (create image)) (drop i images)"
proof (induction create images i views rule: ImageViews_loop.induct)
  case (1 create images i views)
  show ?case
  proof (cases "i < length images")
    case True
    obtain r v where c: "create (images ! i) = (r, v)" by (cases "create (images ! i)")
    from "1.prems"(1,2) True c have ok: "r = VK_SUCCESS"
      by (subst (asm) ImageViews_loop.simps) (simp split: if_splits)
    from "1.prems"(1,2) True c ok
    have rec: "ImageViews_loop create images (i + 1) (views[i := v]) = Inr vs"
      by (subst (asm) ImageViews_loop.simps) simp
    have ih: "vs = take (i + 1) (views[i := v])
                 @ map (\<lambda>image. snd (create image)) (drop (i + 1) images)"
      using "1.IH" [of r v] rec c True "1.prems"(2) ok by simp
    have t: "take (Suc i) (views[i := v]) = take i views @ [v]"
      using True "1.prems"(2) by (simp add: take_Suc_conv_app_nth)
    have d: "drop i images = images ! i # drop (Suc i) images"
      using True by (simp add: Cons_nth_drop_Suc)
    show ?thesis unfolding ih using t d c by simp
  next
    case False
    with "1.prems" have e: "i = length images" by simp
    from "1.prems"(1) False have "vs = views"
      by (subst (asm) ImageViews_loop.simps) simp
    with e "1.prems"(2) show ?thesis by simp
  qed
qed

lemma FrameBuffers_bindings_length:
  "FrameBuffers_bindings create views = Inr fbs \<Longrightarrow> length fbs = length views"
  by (induction views arbitrary: fbs) (auto split: prod.splits if_splits sum.splits)


lemma ImageViews_ctor_length:
  "ImageViews_ctor drv s = Inr iv \<Longrightarrow>
   \<exists>sc. m_swapChain s = Some sc \<and> length (swapChainImageViews iv) = length (swapChainImages sc)"
  by (auto simp: ImageViews_ctor_def split: option.splits sum.splits
           dest: ImageViews_loop_length)

lemma ImageViews_ctor_views:
  "ImageViews_ctor drv s = Inr iv \<Longrightarrow>
   \<exists>sc. m_swapChain s = Some sc
     \<and> swapChainImageViews iv
         = map (\<lambda>image. snd (vkCreateImageView_ret drv image)) (swapChainImages sc)"
  by (auto simp: ImageViews_ctor_def split: option.splits sum.splits
           dest!: ImageViews_loop_Inr)

lemma FrameBuffers_ctor_length:
  "FrameBuffers_ctor drv s = Inr fb \<Longrightarrow>
   \<exists>iv. m_imageViews s = Some iv \<and> length (swapChainFrameBuffers fb) = length (swapChainImageViews iv)"
  by (auto simp: FrameBuffers_ctor_def split: option.splits sum.splits
           dest: FrameBuffers_bindings_length)

section \<open>Facts about the recreation\<close>

lemma teardown_calls_calls [simp]: "teardown_calls (s\<lparr>calls := cs\<rparr>) = teardown_calls s"
  by (simp add: teardown_calls_def)

lemma teardown:
  "reset_m_frameBuffers (reset_m_imageViews (reset_m_swapChain s)) =
     s\<lparr>m_swapChain := None, m_imageViews := None, m_frameBuffers := None,
       calls := calls s @ teardown_calls s\<rparr>"
  by (cases "m_swapChain s"; cases "m_imageViews s"; cases "m_frameBuffers s")
     (simp_all add: reset_m_swapChain_def reset_m_imageViews_def reset_m_frameBuffers_def
        teardown_calls_def ImageViews_dtor_def destroy_each_all)

lemma recreateSwapChain_keeps:
  "frameIndex (state_of (recreateSwapChain drv s)) = frameIndex s"
  "framebufferResized (state_of (recreateSwapChain drv s)) = framebufferResized s"
  "m_renderPass (state_of (recreateSwapChain drv s)) = m_renderPass s"
  "m_graphicsPipeline (state_of (recreateSwapChain drv s)) = m_graphicsPipeline s"
  "graphicsCommandPool (state_of (recreateSwapChain drv s)) = graphicsCommandPool s"
  "transferCommandPool (state_of (recreateSwapChain drv s)) = transferCommandPool s"
  by (simp_all add: recreateSwapChain_def Let_def teardown split: sum.splits)

lemma recreateSwapChain_only:
  "state_of (recreateSwapChain drv s)
     \<lparr>m_swapChain := m_swapChain s, m_imageViews := m_imageViews s,
      m_frameBuffers := m_frameBuffers s, calls := calls s\<rparr> = s"
  by (simp add: recreateSwapChain_def Let_def teardown split: sum.splits)

lemma recreateSwapChain_Returns:
  assumes "recreateSwapChain drv s = Returns u s'"
  shows "calls s' = calls s @ [waitForWindowFocus, waitForDeviceIdle] @ teardown_calls s
           @ [make_unique_SwapChain, make_unique_ImageViews, make_unique_FrameBuffers]"
    and "counts_agree s'"
    and "\<exists>sc. SwapChain_ret drv = Inr sc \<and> m_swapChain s' = Some sc"
proof -
  show "calls s' = calls s @ [waitForWindowFocus, waitForDeviceIdle] @ teardown_calls s
           @ [make_unique_SwapChain, make_unique_ImageViews, make_unique_FrameBuffers]"
    using assms by (auto simp: recreateSwapChain_def Let_def teardown split: sum.splits)
  show "counts_agree s'"
    using assms
    by (auto simp: recreateSwapChain_def Let_def teardown counts_agree_def split: sum.splits
             dest!: ImageViews_ctor_length FrameBuffers_ctor_length)
  show "\<exists>sc. SwapChain_ret drv = Inr sc \<and> m_swapChain s' = Some sc"
    using assms by (auto simp: recreateSwapChain_def Let_def teardown split: sum.splits)
qed

lemma recreateSwapChain_Returns_views:
  assumes "recreateSwapChain drv s = Returns u s'"
  shows "\<exists>sc iv. m_swapChain s' = Some sc \<and> m_imageViews s' = Some iv
     \<and> swapChainImageViews iv
         = map (\<lambda>image. snd (vkCreateImageView_ret drv image)) (swapChainImages sc)"
  using assms
  by (auto simp: recreateSwapChain_def Let_def teardown split: sum.splits
           dest!: ImageViews_ctor_views)

lemma list_all_rebuild_call_teardown: "list_all rebuild_call (teardown_calls s)"
  by (auto simp: teardown_calls_def list_all_iff split: option.splits)

lemma recreateSwapChain_calls:
  "\<exists>rc. calls (state_of (recreateSwapChain drv s)) = calls s @ rc \<and> list_all rebuild_call rc"
proof -
  have "\<exists>tl. calls (state_of (recreateSwapChain drv s))
          = calls s @ [waitForWindowFocus, waitForDeviceIdle] @ teardown_calls s @ tl
        \<and> list_all rebuild_call tl"
    by (simp add: recreateSwapChain_def Let_def teardown split: sum.splits)
  then obtain tl where "calls (state_of (recreateSwapChain drv s))
          = calls s @ ([waitForWindowFocus, waitForDeviceIdle] @ teardown_calls s @ tl)"
      "list_all rebuild_call tl" by auto
  then show ?thesis
    using list_all_rebuild_call_teardown [of s] by simp
qed



lemma sample_rebuilt:
  "recreateSwapChain two_images sample =
     Returns () (sample\<lparr>m_swapChain := Some \<lparr>swapChain = 9, swapChainImages = [31, 32],
                            swapChainImageFormat = 44, swapChainExtent = (1024, 768)\<rparr>,
                          m_imageViews := Some \<lparr>swapChainImageViews = [41, 42]\<rparr>,
                          m_frameBuffers := Some \<lparr>swapChainFrameBuffers = [51, 52]\<rparr>,
                          calls := [waitForWindowFocus, waitForDeviceIdle,
      delete_SwapChain, vkDestroyImageView 11, vkDestroyImageView 12, vkDestroyImageView 13,
      delete_FrameBuffers,
      make_unique_SwapChain, make_unique_ImageViews, make_unique_FrameBuffers]\<rparr>)"
  by (simp add: sample_def Let_def
      recreateSwapChain_def teardown two_images_def teardown_calls_def
      ImageViews_ctor_def FrameBuffers_ctor_def ImageViews_loop.simps
      VK_NULL_HANDLE_def)

section \<open>Facts about the wait for a window with an area\<close>

lemma await_unminimized_done:
  "\<not> zero_area wh \<Longrightarrow> await_unminimized answer k wh cs = Some cs"
  by (subst await_unminimized.simps) (simp add: zero_area_def)

lemma await_unminimized_step:
  "zero_area wh \<Longrightarrow> await_unminimized answer k wh cs =
     await_unminimized answer (k + 1) (answer k)
       (cs @ [glfwGetFramebufferSize (fst (answer k)) (snd (answer k)), glfwWaitEvents])"
  by (subst await_unminimized.simps) (simp add: zero_area_def)

lemma await_unminimized_after:
  "zero_area wh \<Longrightarrow> \<forall>j<n. zero_area (answer (k + j)) \<Longrightarrow> \<not> zero_area (answer (k + n)) \<Longrightarrow>
   await_unminimized answer k wh cs = Some (cs @ polls answer k (Suc n))"
proof (induction n arbitrary: k wh cs)
  case 0
  then show ?case
    by (simp add: await_unminimized_step await_unminimized_done polls_def)
next
  case (Suc n)
  have z: "zero_area (answer k)" using Suc.prems(2) by (metis add.right_neutral zero_less_Suc)
  have a: "\<forall>j<n. zero_area (answer (k + 1 + j))" using Suc.prems(2) by auto
  have b: "\<not> zero_area (answer (k + 1 + n))" using Suc.prems(3) by simp
  have p: "polls answer k (Suc (Suc n)) =
      [glfwGetFramebufferSize (fst (answer k)) (snd (answer k)), glfwWaitEvents]
        @ polls answer (k + 1) (Suc n)"
    by (simp add: polls_def upt_rec [of k])
  show ?case
    using Suc.IH [OF z a b] Suc.prems(1) by (simp add: await_unminimized_step p)
qed

lemma await_unminimized_returns:
  assumes "await_unminimized answer k wh cs = Some r"
  shows "(\<forall>j. zero_area (answer j)) \<longrightarrow> \<not> zero_area wh"
proof (rule await_unminimized.raw_induct
        [where P = "\<lambda>a k wh cs r. (\<forall>j. zero_area (a j)) \<longrightarrow> \<not> zero_area wh", OF _ assms])
  fix aw :: "(nat \<Rightarrow> int \<times> int) \<Rightarrow> nat \<Rightarrow> int \<times> int \<Rightarrow> call list \<Rightarrow> call list option"
  fix a :: "nat \<Rightarrow> int \<times> int" and k' :: nat and wh' :: "int \<times> int"
    and cs' r' :: "call list"
  assume IH: "\<And>a k wh cs y. aw a k wh cs = Some y \<Longrightarrow> (\<forall>j. zero_area (a j)) \<longrightarrow> \<not> zero_area wh"
  assume eq: "(if fst wh' = 0 \<or> snd wh' = 0
        then aw a (k' + 1) (a k')
               (cs' @ [glfwGetFramebufferSize (fst (a k')) (snd (a k')), glfwWaitEvents])
        else Some cs') = Some r'"
  show "(\<forall>j. zero_area (a j)) \<longrightarrow> \<not> zero_area wh'"
  proof (intro impI notI)
    assume all: "\<forall>j. zero_area (a j)" and z: "zero_area wh'"
    from z eq have "aw a (k' + 1) (a k')
               (cs' @ [glfwGetFramebufferSize (fst (a k')) (snd (a k')), glfwWaitEvents]) = Some r'"
      by (simp add: zero_area_def)
    from IH [OF this] all show False by blast
  qed
qed

lemma await_unminimized_never:
  "\<forall>j. zero_area (answer j) \<Longrightarrow> zero_area wh \<Longrightarrow> await_unminimized answer k wh cs = None"
  using await_unminimized_returns [of answer k wh cs]
  by (cases "await_unminimized answer k wh cs") auto

section \<open>Facts about the rebuild of the first renderer\<close>

lemma recreateSwapChain_p0_eq:
  assumes "\<forall>j<n. zero_area (framebufferSize drv j)" "\<not> zero_area (framebufferSize drv n)"
  shows "recreateSwapChain_p0 drv s =
           Some (rebuild_p0 drv (s\<lparr>calls_p0 := calls_p0 s @ size_queries (framebufferSize drv) n\<rparr>))"
proof (cases n)
  case 0
  with assms show ?thesis
    by (simp add: recreateSwapChain_p0_def Let_def await_unminimized_done size_queries_def polls_def)
next
  case (Suc m)
  with assms have z: "zero_area (framebufferSize drv 0)"
    and a: "\<forall>j<m. zero_area (framebufferSize drv (1 + j))"
    and b: "\<not> zero_area (framebufferSize drv (1 + m))"
    by auto
  show ?thesis
    using await_unminimized_after [OF z a b] Suc
    by (simp add: recreateSwapChain_p0_def Let_def size_queries_def)
qed

lemma recreateSwapChain_p0_blocks:
  assumes "\<forall>j. zero_area (framebufferSize drv j)"
  shows "recreateSwapChain_p0 drv s = None"
  using await_unminimized_never [OF assms, of "framebufferSize drv 0"] assms
  by (simp add: recreateSwapChain_p0_def Let_def)

lemma recreateSwapChain_p0_Some:
  "recreateSwapChain_p0 drv s = Some out \<Longrightarrow> \<exists>cs. out = rebuild_p0 drv (s\<lparr>calls_p0 := cs\<rparr>)"
  by (auto simp: recreateSwapChain_p0_def Let_def split: option.splits)

lemma rebuild_p0_calls:
  "\<exists>tl. calls_p0 (state_of (rebuild_p0 drv s)) =
          calls_p0 s @ vkDeviceWaitIdle # map vkDestroyFramebuffer (swapChainFrameBuffers_p0 s)
            @ map vkDestroyImageView (swapChainImageViews_p0 s)
            @ [vkDestroySwapchainKHR (swapChain_p0 s), SwapChain_createSwapChain] @ tl
        \<and> (tl = [] \<or> tl = [ImageViews_createImageViews]
             \<or> tl = [ImageViews_createImageViews, FrameBuffers_createFrameBuffers])"
  by (simp add: rebuild_p0_def Let_def waitForDeviceIdle_p0_def destroySwapChain_eq
        split: sum.splits prod.splits)

lemma rebuild_p0_Returns_calls:
  "rebuild_p0 drv s = Returns u s' \<Longrightarrow>
   calls_p0 s' =
          calls_p0 s @ vkDeviceWaitIdle # map vkDestroyFramebuffer (swapChainFrameBuffers_p0 s)
            @ map vkDestroyImageView (swapChainImageViews_p0 s)
            @ [vkDestroySwapchainKHR (swapChain_p0 s), SwapChain_createSwapChain,
               ImageViews_createImageViews, FrameBuffers_createFrameBuffers]"
  by (auto simp: rebuild_p0_def Let_def waitForDeviceIdle_p0_def destroySwapChain_eq
        split: sum.splits prod.splits)

lemma rebuild_p0_keeps:
  "renderPass_p0 (state_of (rebuild_p0 drv s)) = renderPass_p0 s"
  "graphicsPipeline_p0 (state_of (rebuild_p0 drv s)) = graphicsPipeline_p0 s"
  "pipelineLayout_p0 (state_of (rebuild_p0 drv s)) = pipelineLayout_p0 s"
  "graphicsCommandPool_p0 (state_of (rebuild_p0 drv s)) = graphicsCommandPool_p0 s"
  "transferCommandPool_p0 (state_of (rebuild_p0 drv s)) = transferCommandPool_p0 s"
  by (simp_all add: rebuild_p0_def Let_def waitForDeviceIdle_p0_def destroySwapChain_eq
        split: sum.splits prod.splits)

lemma rebuild_p0_only:
  "state_of (rebuild_p0 drv s)
     \<lparr>swapChain_p0 := swapChain_p0 s, swapChainImages_p0 := swapChainImages_p0 s,
      swapChainImageFormat_p0 := swapChainImageFormat_p0 s,
      swapChainExtent_p0 := swapChainExtent_p0 s,
      swapChainImageViews_p0 := swapChainImageViews_p0 s,
      swapChainFrameBuffers_p0 := swapChainFrameBuffers_p0 s,
      calls_p0 := calls_p0 s\<rparr> = s"
  by (simp add: rebuild_p0_def Let_def waitForDeviceIdle_p0_def destroySwapChain_eq
        split: sum.splits prod.splits)

lemma sample_p0_rebuilt:
  "recreateSwapChain_p0 minimized_twice sample_p0 =
     Some (Returns () (sample_p0\<lparr>swapChain_p0 := 9, swapChainImages_p0 := [31, 32],
        swapChainImageFormat_p0 := 44, swapChainExtent_p0 := (800, 600),
        swapChainImageViews_p0 := [41, 42], swapChainFrameBuffers_p0 := [51, 52],
        calls_p0 := [glfwGetFramebufferSize 0 0,
               glfwGetFramebufferSize 0 0, glfwWaitEvents,
               glfwGetFramebufferSize 800 600, glfwWaitEvents,
               vkDeviceWaitIdle,
               vkDestroyFramebuffer 21, vkDestroyFramebuffer 22,
               vkDestroyImageView 11, vkDestroyImageView 12,
               vkDestroySwapchainKHR 7,
               SwapChain_createSwapChain, ImageViews_createImageViews,
               FrameBuffers_createFrameBuffers]\<rparr>))"
proof -
  have b: "\<forall>j<2. zero_area (framebufferSize minimized_twice j)"
      "\<not> zero_area (framebufferSize minimized_twice 2)"
    by (simp_all add: minimized_twice_def zero_area_def)
  show ?thesis
    unfolding recreateSwapChain_p0_eq [OF b]
    by (simp add: rebuild_p0_def Let_def minimized_twice_def sample_p0_def
          waitForDeviceIdle_p0_def destroySwapChain_eq size_queries_def polls_def upt_rec)
qed

section \<open>Facts about one frame\<close>

lemma waitForPreviousFrame_initial_resets:
  "fence_waits (waitForPreviousFrame_initial k []) = [k]
   \<and> vkResetFences k \<in> set (waitForPreviousFrame_initial k cs)"
  by (simp add: waitForPreviousFrame_initial_def fence_waits_def)

lemma state_of_rethrow [simp]:
  "state_of (case out of Throws e s \<Rightarrow> Throws e s | Returns u s \<Rightarrow> Returns i s) = state_of out"
  by (cases out) simp_all

lemma returned_rethrow [simp]:
  "returned (case out of Throws e s \<Rightarrow> Throws e s | Returns u s \<Rightarrow> Returns i s) = returned out"
  by (cases out) simp_all

lemma getNextSwapChainImage_out_of_date:
  "fst (acquire f) = VK_ERROR_OUT_OF_DATE_KHR \<Longrightarrow>
   getNextSwapChainImage f s =
     (case recreateSwapChain (acquire_rebuild f)
             (s\<lparr>calls := calls s @ [vkAcquireNextImageKHR (frameIndex s) VK_ERROR_OUT_OF_DATE_KHR]\<rparr>) of
        Throws e s' \<Rightarrow> Throws e s'
      | Returns u s' \<Rightarrow> Returns (snd (acquire f)) s')"
  by (cases "acquire f") (auto simp: getNextSwapChainImage_def split: outcome.splits)

lemma getNextSwapChainImage_ready:
  "fst (acquire f) = VK_SUCCESS \<or> fst (acquire f) = VK_SUBOPTIMAL_KHR \<Longrightarrow>
   getNextSwapChainImage f s =
     Returns (snd (acquire f))
       (s\<lparr>calls := calls s @ [vkAcquireNextImageKHR (frameIndex s) (fst (acquire f)),
                                vkResetFences (frameIndex s)]\<rparr>)"
  by (cases "acquire f") (auto simp: getNextSwapChainImage_def)

lemma getNextSwapChainImage_error:
  "fst (acquire f) \<noteq> VK_ERROR_OUT_OF_DATE_KHR \<Longrightarrow> fst (acquire f) \<noteq> VK_SUCCESS \<Longrightarrow>
   fst (acquire f) \<noteq> VK_SUBOPTIMAL_KHR \<Longrightarrow>
   getNextSwapChainImage f s =
     Throws (runtime_error ''Failed to acquire swap chain image!'')
       (s\<lparr>calls := calls s @ [vkAcquireNextImageKHR (frameIndex s) (fst (acquire f))]\<rparr>)"
  by (cases "acquire f") (simp add: getNextSwapChainImage_def)

lemma presentImageBuffer_stale:
  "present f = VK_ERROR_OUT_OF_DATE_KHR \<or> present f = VK_SUBOPTIMAL_KHR \<or> framebufferResized s \<Longrightarrow>
   presentImageBuffer f i s =
     recreateSwapChain (present_rebuild f)
       (s\<lparr>calls := calls s @ [vkQueuePresentKHR i (present f)], framebufferResized := False\<rparr>)"
  by (auto simp: presentImageBuffer_def Let_def)

lemma presentImageBuffer_ready:
  "present f = VK_SUCCESS \<Longrightarrow> \<not> framebufferResized s \<Longrightarrow>
   presentImageBuffer f i s = Returns () (s\<lparr>calls := calls s @ [vkQueuePresentKHR i VK_SUCCESS]\<rparr>)"
  by (simp add: presentImageBuffer_def Let_def)

lemma presentImageBuffer_error:
  "present f \<noteq> VK_ERROR_OUT_OF_DATE_KHR \<Longrightarrow> present f \<noteq> VK_SUBOPTIMAL_KHR \<Longrightarrow>
   present f \<noteq> VK_SUCCESS \<Longrightarrow> \<not> framebufferResized s \<Longrightarrow>
   presentImageBuffer f i s =
     Throws (runtime_error ''Failed to present the current swap chain image!'')
       (s\<lparr>calls := calls s @ [vkQueuePresentKHR i (present f)]\<rparr>)"
  by (simp add: presentImageBuffer_def Let_def)

lemma getNextSwapChainImage_frameIndex [simp]:
  "frameIndex (state_of (getNextSwapChainImage f s)) = frameIndex s"
  by (cases "acquire f")
     (simp add: getNextSwapChainImage_def Let_def recreateSwapChain_keeps)

lemma presentImageBuffer_frameIndex [simp]:
  "frameIndex (state_of (presentImageBuffer f i s)) = frameIndex s"
  by (simp add: presentImageBuffer_def Let_def recreateSwapChain_keeps)

lemma getNextSwapChainImage_calls:
  "\<exists>mid. calls (state_of (getNextSwapChainImage f s))
            = calls s @ vkAcquireNextImageKHR (frameIndex s) (fst (acquire f)) # mid
        \<and> (if fst (acquire f) = VK_ERROR_OUT_OF_DATE_KHR then list_all rebuild_call mid
            else if fst (acquire f) = VK_SUCCESS \<or> fst (acquire f) = VK_SUBOPTIMAL_KHR
                 then mid = [vkResetFences (frameIndex s)]
            else mid = [])"
proof (cases "fst (acquire f) = VK_ERROR_OUT_OF_DATE_KHR")
  case True
  from recreateSwapChain_calls [of "acquire_rebuild f"
      "s\<lparr>calls := calls s @ [vkAcquireNextImageKHR (frameIndex s) VK_ERROR_OUT_OF_DATE_KHR]\<rparr>"]
  show ?thesis
    using True by (auto simp: getNextSwapChainImage_out_of_date)
next
  case False
  then show ?thesis
    by (cases "fst (acquire f) = VK_SUCCESS \<or> fst (acquire f) = VK_SUBOPTIMAL_KHR")
       (auto simp: getNextSwapChainImage_ready getNextSwapChainImage_error)
qed

lemma presentImageBuffer_calls:
  "\<exists>rc. calls (state_of (presentImageBuffer f i s))
            = calls s @ vkQueuePresentKHR i (present f) # rc
        \<and> list_all rebuild_call rc"
proof (cases "present f = VK_ERROR_OUT_OF_DATE_KHR \<or> present f = VK_SUBOPTIMAL_KHR \<or> framebufferResized s")
  case True
  from recreateSwapChain_calls [of "present_rebuild f"
      "s\<lparr>calls := calls s @ [vkQueuePresentKHR i (present f)], framebufferResized := False\<rparr>"]
  show ?thesis
    using True by (auto simp: presentImageBuffer_stale)
next
  case False
  then show ?thesis
    by (cases "present f = VK_SUCCESS")
       (auto simp: presentImageBuffer_ready presentImageBuffer_error)
qed

lemma renderFrame_Throws_early:
  "getNextSwapChainImage f (waitForPreviousFrame s) = Throws e s' \<Longrightarrow>
   renderFrame M f s = Throws e s'"
  by (simp add: renderFrame_def Let_def)

lemma renderFrame_after_acquire:
  assumes "getNextSwapChainImage f (waitForPreviousFrame s) = Returns i s'"
  shows "\<exists>tl. calls (state_of (renderFrame M f s))
            = calls s' @ vkResetCommandBuffer (frameIndex s) # recordGraphicsCommands (frameIndex s) i
                # submitCommandBuffer (frameIndex s) # tl
          \<and> (tl = [] \<or> (\<exists>rc. tl = vkQueuePresentKHR i (present f) # rc \<and> list_all rebuild_call rc))"
proof -
  have "frameIndex (state_of (getNextSwapChainImage f (waitForPreviousFrame s)))
      = frameIndex (waitForPreviousFrame s)"
    by (rule getNextSwapChainImage_frameIndex)
  then have k: "frameIndex s' = frameIndex s"
    unfolding assms by (simp add: waitForPreviousFrame_def)
  let ?s4 = "s'\<lparr>calls := calls s' @ [vkResetCommandBuffer (frameIndex s),
        recordGraphicsCommands (frameIndex s) i, submitCommandBuffer (frameIndex s)]\<rparr>"
  show ?thesis
  proof (cases "submit_ret f")
    case (Some e)
    then show ?thesis
      using assms k
      by (simp add: renderFrame_def Let_def resetGraphicsCmdBuffer_def submitGraphicsCmdBuffer_def)
  next
    case None
    from presentImageBuffer_calls [of f i ?s4]
    obtain rc where rc: "calls (state_of (presentImageBuffer f i ?s4))
        = calls ?s4 @ vkQueuePresentKHR i (present f) # rc" "list_all rebuild_call rc"
      by blast
    have "calls (state_of (renderFrame M f s)) = calls (state_of (presentImageBuffer f i ?s4))"
      using assms k None
      by (simp add: renderFrame_def Let_def resetGraphicsCmdBuffer_def submitGraphicsCmdBuffer_def
            split: outcome.splits)
    with rc show ?thesis by simp
  qed
qed

lemma rebuild_call_no_reset: "list_all rebuild_call rc \<Longrightarrow> vkResetFences k \<notin> set rc"
  by (auto simp: list_all_iff)

lemma frame_calls_error:
  assumes "fst (acquire f) \<noteq> VK_ERROR_OUT_OF_DATE_KHR" "fst (acquire f) \<noteq> VK_SUCCESS"
    "fst (acquire f) \<noteq> VK_SUBOPTIMAL_KHR"
  shows "frame_calls M f s =
           [vkWaitForFences (frameIndex s), vkAcquireNextImageKHR (frameIndex s) (fst (acquire f))]"
  using assms
  by (simp add: frame_calls_def renderFrame_def Let_def getNextSwapChainImage_error
        waitForPreviousFrame_def)

lemma frame_calls_ready:
  assumes "fst (acquire f) = VK_SUCCESS \<or> fst (acquire f) = VK_SUBOPTIMAL_KHR"
  shows "\<exists>tl. frame_calls M f s =
            [vkWaitForFences (frameIndex s),
             vkAcquireNextImageKHR (frameIndex s) (fst (acquire f)),
             vkResetFences (frameIndex s),
             vkResetCommandBuffer (frameIndex s),
             recordGraphicsCommands (frameIndex s) (snd (acquire f)),
             submitCommandBuffer (frameIndex s)] @ tl
          \<and> (tl = [] \<or> (\<exists>rc. tl = vkQueuePresentKHR (snd (acquire f)) (present f) # rc
                              \<and> list_all rebuild_call rc))"
proof -
  let ?k = "frameIndex s"
  let ?s2 = "waitForPreviousFrame s
      \<lparr>calls := calls (waitForPreviousFrame s)
          @ [vkAcquireNextImageKHR (frameIndex (waitForPreviousFrame s)) (fst (acquire f)),
             vkResetFences (frameIndex (waitForPreviousFrame s))]\<rparr>"
  have g: "getNextSwapChainImage f (waitForPreviousFrame s) = Returns (snd (acquire f)) ?s2"
    using assms by (rule getNextSwapChainImage_ready)
  from renderFrame_after_acquire [OF g, of M]
  obtain tl where "calls (state_of (renderFrame M f s))
            = calls ?s2 @ vkResetCommandBuffer ?k # recordGraphicsCommands ?k (snd (acquire f))
                # submitCommandBuffer ?k # tl"
    and "tl = [] \<or> (\<exists>rc. tl = vkQueuePresentKHR (snd (acquire f)) (present f) # rc
                        \<and> list_all rebuild_call rc)"
    by blast
  then show ?thesis
    by (simp add: frame_calls_def waitForPreviousFrame_def)
qed

lemma frame_calls_out_of_date:
  assumes "fst (acquire f) = VK_ERROR_OUT_OF_DATE_KHR"
  shows "\<exists>mid tl. frame_calls M f s =
            vkWaitForFences (frameIndex s)
              # vkAcquireNextImageKHR (frameIndex s) VK_ERROR_OUT_OF_DATE_KHR # mid @ tl
          \<and> list_all rebuild_call mid
          \<and> (tl = [] \<or>
               (\<exists>tl'. tl = vkResetCommandBuffer (frameIndex s)
                           # recordGraphicsCommands (frameIndex s) (snd (acquire f))
                           # submitCommandBuffer (frameIndex s) # tl'
                  \<and> (tl' = [] \<or> (\<exists>rc. tl' = vkQueuePresentKHR (snd (acquire f)) (present f) # rc
                                      \<and> list_all rebuild_call rc))))"
proof -
  let ?k = "frameIndex s"
  let ?s1 = "waitForPreviousFrame s"
  from getNextSwapChainImage_calls [of f ?s1] assms
  obtain mid where mid: "calls (state_of (getNextSwapChainImage f ?s1))
        = calls s @ vkWaitForFences ?k # vkAcquireNextImageKHR ?k VK_ERROR_OUT_OF_DATE_KHR # mid"
      "list_all rebuild_call mid"
    by (auto simp: waitForPreviousFrame_def)
  show ?thesis
  proof (cases "getNextSwapChainImage f ?s1")
    case (Throws e s')
    with mid renderFrame_Throws_early [OF Throws, of M]
    have "frame_calls M f s
        = vkWaitForFences ?k # vkAcquireNextImageKHR ?k VK_ERROR_OUT_OF_DATE_KHR # mid @ []"
      by (simp add: frame_calls_def)
    with mid(2) show ?thesis by blast
  next
    case (Returns i s')
    have i: "i = snd (acquire f)"
      using Returns assms
      by (auto simp: getNextSwapChainImage_out_of_date split: outcome.splits)
    from renderFrame_after_acquire [OF Returns, of M]
    obtain tl' where tl': "calls (state_of (renderFrame M f s))
            = calls s' @ vkResetCommandBuffer ?k # recordGraphicsCommands ?k i
                # submitCommandBuffer ?k # tl'"
      "tl' = [] \<or> (\<exists>rc. tl' = vkQueuePresentKHR i (present f) # rc \<and> list_all rebuild_call rc)"
      by blast
    from mid(1) Returns have "calls s'
        = calls s @ vkWaitForFences ?k # vkAcquireNextImageKHR ?k VK_ERROR_OUT_OF_DATE_KHR # mid"
      by simp
    with tl'(1) have "frame_calls M f s
        = vkWaitForFences ?k # vkAcquireNextImageKHR ?k VK_ERROR_OUT_OF_DATE_KHR # mid
            @ (vkResetCommandBuffer ?k # recordGraphicsCommands ?k (snd (acquire f))
                # submitCommandBuffer ?k # tl')"
      by (simp add: frame_calls_def i)
    with mid(2) tl'(2) i show ?thesis by blast
  qed
qed

lemma renderFrame_out_of_date_submits:
  assumes "fst (acquire f) = VK_ERROR_OUT_OF_DATE_KHR"
    and "returned (getNextSwapChainImage f (waitForPreviousFrame s))"
  shows "submitCommandBuffer (frameIndex s) \<in> set (frame_calls M f s)"
proof -
  from assms(2) obtain i s2 where
    g: "getNextSwapChainImage f (waitForPreviousFrame s) = Returns i s2"
    by (cases "getNextSwapChainImage f (waitForPreviousFrame s)") auto
  from getNextSwapChainImage_calls [of f "waitForPreviousFrame s"]
  obtain mid where "calls s2 = calls s @ vkWaitForFences (frameIndex s)
      # vkAcquireNextImageKHR (frameIndex s) (fst (acquire f)) # mid"
    unfolding g by (auto simp: waitForPreviousFrame_def)
  moreover from renderFrame_after_acquire [OF g, of M]
  obtain tl where "calls (state_of (renderFrame M f s))
            = calls s2 @ vkResetCommandBuffer (frameIndex s) # recordGraphicsCommands (frameIndex s) i
                # submitCommandBuffer (frameIndex s) # tl"
    by blast
  ultimately show ?thesis by (simp add: frame_calls_def)
qed

section \<open>Facts about the counts of images, image views and framebuffers\<close>

lemma counts_agree_upd [simp]:
  "counts_agree (s\<lparr>calls := cs\<rparr>) = counts_agree s"
  "counts_agree (s\<lparr>frameIndex := k\<rparr>) = counts_agree s"
  "counts_agree (s\<lparr>framebufferResized := b\<rparr>) = counts_agree s"
  by (simp_all add: counts_agree_def)

lemma getNextSwapChainImage_counts:
  "counts_agree s \<Longrightarrow> getNextSwapChainImage f s = Returns i s' \<Longrightarrow> counts_agree s'"
  by (cases "acquire f")
     (auto simp: getNextSwapChainImage_def Let_def split: if_splits outcome.splits
           dest: recreateSwapChain_Returns(2))

lemma presentImageBuffer_counts:
  "counts_agree s \<Longrightarrow> presentImageBuffer f i s = Returns u s' \<Longrightarrow> counts_agree s'"
  by (auto simp: presentImageBuffer_def Let_def split: if_splits
           dest: recreateSwapChain_Returns(2))

lemma renderFrame_counts:
  "counts_agree s \<Longrightarrow> renderFrame M f s = Returns u s' \<Longrightarrow> counts_agree s'"
  by (auto simp: renderFrame_def Let_def waitForPreviousFrame_def resetGraphicsCmdBuffer_def
        submitGraphicsCmdBuffer_def split: outcome.splits option.splits
        dest!: getNextSwapChainImage_counts [rotated] presentImageBuffer_counts [rotated])

lemma frame_loop_counts:
  "counts_agree s \<Longrightarrow> frame_loop M fs s = Returns u s' \<Longrightarrow> counts_agree s'"
proof (induction fs arbitrary: s)
  case Nil
  then show ?case by simp
next
  case (Cons f fs)
  from Cons.prems(2) obtain v s1 where
    r: "renderFrame M f (glfwPollEvents f s) = Returns v s1" and l: "frame_loop M fs s1 = Returns u s'"
    by (auto split: outcome.splits)
  from Cons.prems(1) have "counts_agree (glfwPollEvents f s)" by (simp add: glfwPollEvents_def)
  from renderFrame_counts [OF this r] have "counts_agree s1" .
  from Cons.IH [OF this l] show ?case .
qed

lemma resizes_run:
  "frame_loop 2 [resize_frame, stale_frame, steady_frame] sample =
     Returns () (state_of (frame_loop 2 [resize_frame, stale_frame, steady_frame] sample))
   \<and> m_swapChain (state_of (frame_loop 2 [resize_frame, stale_frame, steady_frame] sample))
       = Some \<lparr>swapChain = 9, swapChainImages = [31, 32],
                            swapChainImageFormat = 44, swapChainExtent = (1024, 768)\<rparr>
   \<and> m_imageViews (state_of (frame_loop 2 [resize_frame, stale_frame, steady_frame] sample))
       = Some \<lparr>swapChainImageViews = [41, 42]\<rparr>
   \<and> m_frameBuffers (state_of (frame_loop 2 [resize_frame, stale_frame, steady_frame] sample))
       = Some \<lparr>swapChainFrameBuffers = [51, 52]\<rparr>"
  by (simp add: renderFrame_def waitForPreviousFrame_def glfwPollEvents_def
      getNextSwapChainImage_def stale_frame_def steady_frame_def resize_frame_def sample_def Let_def
      recreateSwapChain_def teardown two_images_def teardown_calls_def
      ImageViews_ctor_def FrameBuffers_ctor_def ImageViews_loop.simps
      resetGraphicsCmdBuffer_def submitGraphicsCmdBuffer_def presentImageBuffer_def
      VK_NULL_HANDLE_def)

section \<open>Facts about the frame index\<close>

lemma slot_advance:
  fixes k M :: "32 word"
  assumes "k < M"
  shows "unat ((k + 1) mod M) = (unat k + 1) mod unat M"
proof -
  from assms have "unat k < unat M" by (simp add: word_less_nat_alt)
  moreover have "unat M < 2 ^ 32" using unsigned_less [of M, where 'a = nat] by simp
  ultimately have "unat k + 1 < 2 ^ 32" by simp
  then have "unat (k + 1) = unat k + 1" by (simp add: unat_word_ariths)
  then show ?thesis by (simp add: unat_mod)
qed

lemma slot_in_range:
  fixes k M :: "32 word"
  shows "0 < M \<Longrightarrow> (k + 1) mod M < M"
  by (rule word_mod_less_divisor)

lemma submitGraphicsCmdBuffer_frameIndex:
  "submitGraphicsCmdBuffer f s = out \<Longrightarrow> frameIndex (state_of out) = frameIndex s"
  by (auto simp: submitGraphicsCmdBuffer_def Let_def split: option.splits)

lemma getNextSwapChainImage_frameIndex_out:
  "getNextSwapChainImage f s = out \<Longrightarrow> frameIndex (state_of out) = frameIndex s"
  by auto

lemma presentImageBuffer_frameIndex_out:
  "presentImageBuffer f i s = out \<Longrightarrow> frameIndex (state_of out) = frameIndex s"
  by auto

lemma renderFrame_Returns_frameIndex:
  assumes "renderFrame M f s = Returns u s'"
  shows "frameIndex s' = (frameIndex s + 1) mod M"
proof -
  from assms obtain i s2 v s4 w s5 where
    g: "getNextSwapChainImage f (waitForPreviousFrame s) = Returns i s2" and
    b: "submitGraphicsCmdBuffer f (resetGraphicsCmdBuffer i s2) = Returns v s4" and
    p: "presentImageBuffer f i s4 = Returns w s5" and
    s': "s' = s5\<lparr>frameIndex := (frameIndex s5 + 1) mod M\<rparr>"
    by (auto simp: renderFrame_def Let_def split: outcome.splits)
  have "frameIndex s2 = frameIndex s"
    using getNextSwapChainImage_frameIndex_out [OF g] by (simp add: waitForPreviousFrame_def)
  moreover have "frameIndex s4 = frameIndex s2"
    using submitGraphicsCmdBuffer_frameIndex [OF b] by (simp add: resetGraphicsCmdBuffer_def)
  moreover have "frameIndex s5 = frameIndex s4"
    using presentImageBuffer_frameIndex_out [OF p] by simp
  ultimately show ?thesis using s' by simp
qed

lemma renderFrame_Throws_frameIndex:
  assumes "renderFrame M f s = Throws e s'"
  shows "frameIndex s' = frameIndex s"
proof -
  have w: "frameIndex (waitForPreviousFrame s) = frameIndex s"
    by (simp add: waitForPreviousFrame_def)
  show ?thesis
  proof (cases "getNextSwapChainImage f (waitForPreviousFrame s)")
    case (Throws e1 s1)
    with assms have "s' = s1" by (simp add: renderFrame_def Let_def)
    with getNextSwapChainImage_frameIndex_out [OF Throws] w
    show ?thesis by simp
  next
    case (Returns i s2)
    have k2: "frameIndex s2 = frameIndex s"
      using getNextSwapChainImage_frameIndex_out [OF Returns] w by simp
    show ?thesis
    proof (cases "submitGraphicsCmdBuffer f (resetGraphicsCmdBuffer i s2)")
      case (Throws e4 s4)
      with assms Returns have "s' = s4" by (simp add: renderFrame_def Let_def)
      with submitGraphicsCmdBuffer_frameIndex [OF Throws] k2
      show ?thesis by (simp add: resetGraphicsCmdBuffer_def)
    next
      case (Returns v s4)
      have k4: "frameIndex s4 = frameIndex s"
        using submitGraphicsCmdBuffer_frameIndex [OF Returns] k2
        by (simp add: resetGraphicsCmdBuffer_def)
      from assms \<open>getNextSwapChainImage f (waitForPreviousFrame s) = Returns i s2\<close> Returns
      have "presentImageBuffer f i s4 = Throws e s'"
        by (simp add: renderFrame_def Let_def split: outcome.splits)
      from presentImageBuffer_frameIndex_out [OF this] k4 show ?thesis by simp
    qed
  qed
qed

lemma frame_loop_frameIndex:
  fixes M :: "32 word"
  assumes "0 < M"
  shows "frameIndex s < M \<Longrightarrow> frameIndex (state_of (frame_loop M fs s)) < M"
proof (induction fs arbitrary: s)
  case Nil
  then show ?case by simp
next
  case (Cons f fs)
  have p: "frameIndex (glfwPollEvents f s) = frameIndex s" by (simp add: glfwPollEvents_def)
  show ?case
  proof (cases "renderFrame M f (glfwPollEvents f s)")
    case (Throws e s1)
    from renderFrame_Throws_frameIndex [OF Throws] p Cons.prems Throws
    show ?thesis by simp
  next
    case (Returns u s1)
    from renderFrame_Returns_frameIndex [OF Returns] slot_in_range [OF assms]
    have "frameIndex s1 < M" by simp
    from Cons.IH [OF this] Returns show ?thesis by simp
  qed
qed

lemma renderFrame_steady:
  assumes "steady f" "\<not> framebufferResized s"
  shows "renderFrame M f s =
     Returns () (s\<lparr>calls := calls s @
        [vkWaitForFences (frameIndex s), vkAcquireNextImageKHR (frameIndex s) VK_SUCCESS,
         vkResetFences (frameIndex s), vkResetCommandBuffer (frameIndex s),
         recordGraphicsCommands (frameIndex s) (snd (acquire f)),
         submitCommandBuffer (frameIndex s), vkQueuePresentKHR (snd (acquire f)) VK_SUCCESS],
       frameIndex := (frameIndex s + 1) mod M\<rparr>)"
  using assms
  by (cases "acquire f")
     (simp add: steady_def renderFrame_def Let_def waitForPreviousFrame_def
        getNextSwapChainImage_def resetGraphicsCmdBuffer_def submitGraphicsCmdBuffer_def
        presentImageBuffer_def)

lemma fence_waits_append [simp]: "fence_waits (xs @ ys) = fence_waits xs @ fence_waits ys"
  by (simp add: fence_waits_def)

lemma frame_loop_steady:
  fixes M :: "32 word"
  assumes "list_all steady fs" "\<not> framebufferResized s" "frameIndex s < M"
  shows "returned (frame_loop M fs s)
    \<and> fence_waits (calls (state_of (frame_loop M fs s)))
        = fence_waits (calls s)
            @ map (\<lambda>j. of_nat ((unat (frameIndex s) + j) mod unat M)) [0..<length fs]"
  using assms
proof (induction fs arbitrary: s)
  case Nil
  then show ?case by simp
next
  case (Cons f fs)
  let ?s1 = "s\<lparr>calls := calls s @
        [vkWaitForFences (frameIndex s), vkAcquireNextImageKHR (frameIndex s) VK_SUCCESS,
         vkResetFences (frameIndex s), vkResetCommandBuffer (frameIndex s),
         recordGraphicsCommands (frameIndex s) (snd (acquire f)),
         submitCommandBuffer (frameIndex s), vkQueuePresentKHR (snd (acquire f)) VK_SUCCESS],
       frameIndex := (frameIndex s + 1) mod M\<rparr>"
  from Cons.prems have st: "steady f" and rest: "list_all steady fs" by simp_all
  have p: "glfwPollEvents f s = s"
    using st Cons.prems(2) by (simp add: glfwPollEvents_def steady_def)
  have r: "renderFrame M f (glfwPollEvents f s) = Returns () ?s1"
    unfolding p using st Cons.prems(2) by (rule renderFrame_steady)
  have M0: "0 < M" using Cons.prems(3) unfolding word_less_nat_alt by simp
  have k1: "frameIndex ?s1 < M" using slot_in_range [OF M0] by simp
  have u1: "unat (frameIndex ?s1) = (unat (frameIndex s) + 1) mod unat M"
    using slot_advance [OF Cons.prems(3)] by simp
  from Cons.IH [OF rest _ k1] Cons.prems(2)
  have ih: "returned (frame_loop M fs ?s1)"
    "fence_waits (calls (state_of (frame_loop M fs ?s1)))
        = fence_waits (calls ?s1)
            @ map (\<lambda>j. of_nat ((unat (frameIndex ?s1) + j) mod unat M)) [0..<length fs]"
    by simp_all
  have w: "fence_waits (calls ?s1) = fence_waits (calls s) @ [frameIndex s]"
    by (simp add: fence_waits_def)
  have first: "of_nat (unat (frameIndex s) mod unat M) = frameIndex s"
    using Cons.prems(3) by (simp add: word_less_nat_alt)
  have el: "(of_nat ((unat (frameIndex ?s1) + j) mod unat M) :: 32 word)
      = of_nat ((unat (frameIndex s) + Suc j) mod unat M)" for j
  proof -
    have "(unat (frameIndex ?s1) + j) mod unat M
        = ((unat (frameIndex s) + 1) mod unat M + j) mod unat M"
      by (simp only: u1)
    also have "\<dots> = (unat (frameIndex s) + 1 + j) mod unat M"
      by (rule mod_add_left_eq)
    finally show ?thesis by simp
  qed
  have up: "[0..<length (f # fs)] = 0 # map Suc [0..<length fs]"
    by (simp add: upt_conv_Cons map_Suc_upt del: upt_Suc)
  have shift: "map (\<lambda>j. of_nat ((unat (frameIndex s) + j) mod unat M) :: 32 word) [0..<length (f # fs)]
      = frameIndex s # map (\<lambda>j. of_nat ((unat (frameIndex ?s1) + j) mod unat M)) [0..<length fs]"
    unfolding up el using first by (simp add: comp_def)
  have "fence_waits (calls (state_of (frame_loop M (f # fs) s)))
      = fence_waits (calls s) @ frameIndex s
          # map (\<lambda>j. of_nat ((unat (frameIndex ?s1) + j) mod unat M)) [0..<length fs]"
    using r ih(2) w by simp
  then have "fence_waits (calls (state_of (frame_loop M (f # fs) s)))
      = fence_waits (calls s)
          @ map (\<lambda>j. of_nat ((unat (frameIndex s) + j) mod unat M)) [0..<length (f # fs)]"
    by (simp only: shift)
  moreover have "returned (frame_loop M (f # fs) s)" using r ih(1) by simp
  ultimately show ?case by blast
qed

lemma frame_loop_Throws:
  "renderFrame M f (glfwPollEvents f s) = Throws e s' \<Longrightarrow> frame_loop M (f # fs) s = Throws e s'"
  by simp

section \<open>A frame whose acquire is out of date\<close>

text \<open>
  C1. When the acquire of a frame reports an out-of-date swap chain, the frame should
  submit no command buffer and present nothing, and only rebuild the swap chain. In
  \<open>renderFrame\<close> the \<open>return\<close> that follows the recreation leaves
  \<open>getNextSwapChainImage\<close> only: on the sample state the frame rebuilds the swap chain and
  then still resets and records the command buffer of slot \<open>0\<close>, submits it and presents,
  with the image index that the failed acquire left, and without a fence reset. (By
  \<open>renderFrame_out_of_date_submits\<close> this is so in every state, whenever the recreation
  returns.)
\<close>

theorem renderFrame_out_of_date_still_submits:
  "frame_calls 2 stale_frame sample =
     [vkWaitForFences 0, vkAcquireNextImageKHR 0 VK_ERROR_OUT_OF_DATE_KHR,
      waitForWindowFocus, waitForDeviceIdle,
      delete_SwapChain, vkDestroyImageView 11, vkDestroyImageView 12, vkDestroyImageView 13,
      delete_FrameBuffers,
      make_unique_SwapChain, make_unique_ImageViews, make_unique_FrameBuffers,
      vkResetCommandBuffer 0, recordGraphicsCommands 0 0, submitCommandBuffer 0,
      vkQueuePresentKHR 0 VK_SUCCESS]
   \<and> renderFrame 2 stale_frame sample = Returns () (state_of (renderFrame 2 stale_frame sample))
   \<and> frameIndex (state_of (renderFrame 2 stale_frame sample)) = 1"
  by (simp add: frame_calls_def renderFrame_def waitForPreviousFrame_def
      getNextSwapChainImage_def stale_frame_def steady_frame_def sample_def Let_def
      recreateSwapChain_def teardown two_images_def teardown_calls_def
      ImageViews_ctor_def FrameBuffers_ctor_def ImageViews_loop.simps
      resetGraphicsCmdBuffer_def submitGraphicsCmdBuffer_def presentImageBuffer_def
      VK_NULL_HANDLE_def)

section \<open>When the fence of a slot is reset\<close>

text \<open>
  C2. The in-flight fence of a frame slot is reset only after a successful acquire that is
  not out of date, when new work is about to be submitted for the slot, and never on the
  acquire path that recreates the swap chain. If an iteration of the frame loop resets a
  fence, its acquire returned \<open>VK_SUCCESS\<close> or \<open>VK_SUBOPTIMAL_KHR\<close>, the fence is the one
  of the current slot, the reset comes right after the acquire and is followed by the
  recording and the submission for the same slot, and there is no other reset. If the
  acquire is out of date, the iteration resets no fence.
\<close>

theorem fence_reset_only_after_successful_acquire:
  "(vkResetFences k \<in> set (frame_calls M f s) \<longrightarrow>
      (fst (acquire f) = VK_SUCCESS \<or> fst (acquire f) = VK_SUBOPTIMAL_KHR)
      \<and> k = frameIndex s
      \<and> (\<exists>tl. frame_calls M f s =
            [vkWaitForFences k, vkAcquireNextImageKHR k (fst (acquire f)), vkResetFences k,
             vkResetCommandBuffer k, recordGraphicsCommands k (snd (acquire f)),
             submitCommandBuffer k] @ tl
          \<and> vkResetFences k \<notin> set tl))
   \<and> (fst (acquire f) = VK_ERROR_OUT_OF_DATE_KHR \<longrightarrow> vkResetFences k \<notin> set (frame_calls M f s))"
proof -
  consider (stale) "fst (acquire f) = VK_ERROR_OUT_OF_DATE_KHR"
    | (ready) "fst (acquire f) = VK_SUCCESS \<or> fst (acquire f) = VK_SUBOPTIMAL_KHR"
    | (error) "fst (acquire f) \<noteq> VK_ERROR_OUT_OF_DATE_KHR" "fst (acquire f) \<noteq> VK_SUCCESS"
        "fst (acquire f) \<noteq> VK_SUBOPTIMAL_KHR"
    by blast
  then show ?thesis
  proof cases
    case stale
    from frame_calls_out_of_date [OF stale, of M s]
    have "vkResetFences k \<notin> set (frame_calls M f s)"
      by (auto dest: rebuild_call_no_reset)
    with stale show ?thesis by simp
  next
    case ready
    from frame_calls_ready [OF ready, of M s]
    obtain tl where tl: "frame_calls M f s =
            [vkWaitForFences (frameIndex s),
             vkAcquireNextImageKHR (frameIndex s) (fst (acquire f)),
             vkResetFences (frameIndex s),
             vkResetCommandBuffer (frameIndex s),
             recordGraphicsCommands (frameIndex s) (snd (acquire f)),
             submitCommandBuffer (frameIndex s)] @ tl"
      and "tl = [] \<or> (\<exists>rc. tl = vkQueuePresentKHR (snd (acquire f)) (present f) # rc
                              \<and> list_all rebuild_call rc)"
      by blast
    then have no: "vkResetFences k \<notin> set tl" by (auto dest: rebuild_call_no_reset)
    show ?thesis
      using ready tl no by auto
  next
    case error
    then show ?thesis by (simp add: frame_calls_error)
  qed
qed

theorem fence_reset_only_after_successful_acquire_witness:
  "vkResetFences 0 \<in> set (frame_calls 2 steady_frame sample)
   \<and> fst (acquire steady_frame) = VK_SUCCESS
   \<and> frameIndex sample = 0
   \<and> fst (acquire stale_frame) = VK_ERROR_OUT_OF_DATE_KHR
   \<and> vkResetFences 0 \<notin> set (frame_calls 2 stale_frame sample)"
proof -
  have a: "vkResetFences 0 \<in> set (frame_calls 2 steady_frame sample)"
    by (simp add: frame_calls_def renderFrame_def waitForPreviousFrame_def
      getNextSwapChainImage_def steady_frame_def sample_def Let_def
      resetGraphicsCmdBuffer_def submitGraphicsCmdBuffer_def presentImageBuffer_def)
  have b: "fst (acquire stale_frame) = VK_ERROR_OUT_OF_DATE_KHR"
    by (simp add: stale_frame_def steady_frame_def)
  from fence_reset_only_after_successful_acquire
    [where k = 0 and M = 2 and f = steady_frame and s = sample, THEN conjunct1, rule_format, OF a]
    fence_reset_only_after_successful_acquire
    [where k = 0 and M = 2 and f = stale_frame and s = sample, THEN conjunct2, rule_format, OF b]
    a b
  show ?thesis by (simp add: steady_frame_def sample_def)
qed

section \<open>The order of a rebuild\<close>

text \<open>
  C3. A rebuild should wait for the window, wait for the device to be idle, destroy the
  framebuffers and then the swap chain, and then create the swap chain and finally the
  framebuffers. \<open>recreateSwapChain\<close> of \<open>src/vulkan/Vulkan.cxx\<close> resets \<open>m_swapChain\<close>
  first and \<open>m_frameBuffers\<close> last: on the sample state the swap chain is destroyed before
  its image views and framebuffers.
\<close>

theorem recreateSwapChain_destroys_swap_chain_first:
  "calls (state_of (recreateSwapChain two_images sample)) =
     [waitForWindowFocus, waitForDeviceIdle,
      delete_SwapChain, vkDestroyImageView 11, vkDestroyImageView 12, vkDestroyImageView 13,
      delete_FrameBuffers,
      make_unique_SwapChain, make_unique_ImageViews, make_unique_FrameBuffers]"
  by (simp add: sample_def Let_def
      recreateSwapChain_def teardown two_images_def teardown_calls_def
      ImageViews_ctor_def FrameBuffers_ctor_def ImageViews_loop.simps
      VK_NULL_HANDLE_def)

section \<open>Statuses of acquire and present\<close>




section \<open>What a rebuild leaves untouched\<close>

text \<open>
  C5. A complete rebuild leaves the render pass handle, the graphics pipeline handle and
  the command pool handles as they were: it changes only the swap chain, the image views
  and the framebuffers (and adds to the recorded calls). This holds for the module-based
  \<open>recreateSwapChain\<close> and for the one of the first renderer.
\<close>

theorem rebuild_keeps_pass_pipeline_pools:
  "(recreateSwapChain drv s = Returns u s' \<longrightarrow>
      m_renderPass s' = m_renderPass s \<and> m_graphicsPipeline s' = m_graphicsPipeline s
      \<and> graphicsCommandPool s' = graphicsCommandPool s
      \<and> transferCommandPool s' = transferCommandPool s
      \<and> s'\<lparr>m_swapChain := m_swapChain s, m_imageViews := m_imageViews s,
            m_frameBuffers := m_frameBuffers s, calls := calls s\<rparr> = s)
   \<and> (recreateSwapChain_p0 d t = Some (Returns v t') \<longrightarrow>
      renderPass_p0 t' = renderPass_p0 t \<and> graphicsPipeline_p0 t' = graphicsPipeline_p0 t
      \<and> pipelineLayout_p0 t' = pipelineLayout_p0 t
      \<and> graphicsCommandPool_p0 t' = graphicsCommandPool_p0 t
      \<and> transferCommandPool_p0 t' = transferCommandPool_p0 t
      \<and> t'\<lparr>swapChain_p0 := swapChain_p0 t, swapChainImages_p0 := swapChainImages_p0 t,
            swapChainImageFormat_p0 := swapChainImageFormat_p0 t,
            swapChainExtent_p0 := swapChainExtent_p0 t,
            swapChainImageViews_p0 := swapChainImageViews_p0 t,
            swapChainFrameBuffers_p0 := swapChainFrameBuffers_p0 t,
            calls_p0 := calls_p0 t\<rparr> = t)"
proof (intro conjI impI)
  assume r: "recreateSwapChain drv s = Returns u s'"
  then have s': "s' = state_of (recreateSwapChain drv s)" by simp
  show "m_renderPass s' = m_renderPass s" "m_graphicsPipeline s' = m_graphicsPipeline s"
    "graphicsCommandPool s' = graphicsCommandPool s"
    "transferCommandPool s' = transferCommandPool s"
    unfolding s' by (simp_all add: recreateSwapChain_keeps)
  show "s'\<lparr>m_swapChain := m_swapChain s, m_imageViews := m_imageViews s,
            m_frameBuffers := m_frameBuffers s, calls := calls s\<rparr> = s"
    unfolding s' by (rule recreateSwapChain_only)
next
  assume "recreateSwapChain_p0 d t = Some (Returns v t')"
  from recreateSwapChain_p0_Some [OF this]
  obtain cs where "Returns v t' = rebuild_p0 d (t\<lparr>calls_p0 := cs\<rparr>)" by blast
  then have t': "t' = state_of (rebuild_p0 d (t\<lparr>calls_p0 := cs\<rparr>))"
    by (metis state_of.simps(1))
  show "renderPass_p0 t' = renderPass_p0 t" "graphicsPipeline_p0 t' = graphicsPipeline_p0 t"
    "pipelineLayout_p0 t' = pipelineLayout_p0 t"
    "graphicsCommandPool_p0 t' = graphicsCommandPool_p0 t"
    "transferCommandPool_p0 t' = transferCommandPool_p0 t"
    unfolding t' by (simp_all add: rebuild_p0_keeps)
  from rebuild_p0_only [where drv = d and s = "t\<lparr>calls_p0 := cs\<rparr>"]
  have "(state_of (rebuild_p0 d (t\<lparr>calls_p0 := cs\<rparr>)))
     \<lparr>swapChain_p0 := swapChain_p0 t, swapChainImages_p0 := swapChainImages_p0 t,
      swapChainImageFormat_p0 := swapChainImageFormat_p0 t,
      swapChainExtent_p0 := swapChainExtent_p0 t,
      swapChainImageViews_p0 := swapChainImageViews_p0 t,
      swapChainFrameBuffers_p0 := swapChainFrameBuffers_p0 t,
      calls_p0 := cs\<rparr> = t\<lparr>calls_p0 := cs\<rparr>" by simp
  then have "((state_of (rebuild_p0 d (t\<lparr>calls_p0 := cs\<rparr>)))
     \<lparr>swapChain_p0 := swapChain_p0 t, swapChainImages_p0 := swapChainImages_p0 t,
      swapChainImageFormat_p0 := swapChainImageFormat_p0 t,
      swapChainExtent_p0 := swapChainExtent_p0 t,
      swapChainImageViews_p0 := swapChainImageViews_p0 t,
      swapChainFrameBuffers_p0 := swapChainFrameBuffers_p0 t,
      calls_p0 := cs\<rparr>)\<lparr>calls_p0 := calls_p0 t\<rparr> = (t\<lparr>calls_p0 := cs\<rparr>)\<lparr>calls_p0 := calls_p0 t\<rparr>"
    by (rule arg_cong)
  then show "t'\<lparr>swapChain_p0 := swapChain_p0 t, swapChainImages_p0 := swapChainImages_p0 t,
            swapChainImageFormat_p0 := swapChainImageFormat_p0 t,
            swapChainExtent_p0 := swapChainExtent_p0 t,
            swapChainImageViews_p0 := swapChainImageViews_p0 t,
            swapChainFrameBuffers_p0 := swapChainFrameBuffers_p0 t,
            calls_p0 := calls_p0 t\<rparr> = t"
    unfolding t' by simp
qed

theorem rebuild_keeps_pass_pipeline_pools_witness:
  "returned (recreateSwapChain two_images sample)
   \<and> m_renderPass (state_of (recreateSwapChain two_images sample)) = 3
   \<and> m_graphicsPipeline (state_of (recreateSwapChain two_images sample)) = 4
   \<and> graphicsCommandPool (state_of (recreateSwapChain two_images sample)) = 6
   \<and> transferCommandPool (state_of (recreateSwapChain two_images sample)) = 8
   \<and> map_option returned (recreateSwapChain_p0 minimized_twice sample_p0) = Some True
   \<and> map_option (renderPass_p0 \<circ> state_of) (recreateSwapChain_p0 minimized_twice sample_p0) = Some 3
   \<and> map_option (graphicsPipeline_p0 \<circ> state_of) (recreateSwapChain_p0 minimized_twice sample_p0) = Some 4
   \<and> map_option (graphicsCommandPool_p0 \<circ> state_of) (recreateSwapChain_p0 minimized_twice sample_p0) = Some 6
   \<and> map_option (transferCommandPool_p0 \<circ> state_of) (recreateSwapChain_p0 minimized_twice sample_p0) = Some 8"
proof -
  note a = rebuild_keeps_pass_pipeline_pools
    [where drv = two_images and s = sample and d = minimized_twice and t = sample_p0,
     THEN conjunct1, rule_format, OF sample_rebuilt]
  note b = rebuild_keeps_pass_pipeline_pools
    [where drv = two_images and s = sample and d = minimized_twice and t = sample_p0,
     THEN conjunct2, rule_format, OF sample_p0_rebuilt]
  have "m_renderPass sample = 3" "m_graphicsPipeline sample = 4"
    "graphicsCommandPool sample = 6" "transferCommandPool sample = 8"
    "renderPass_p0 sample_p0 = 3" "graphicsPipeline_p0 sample_p0 = 4"
    "graphicsCommandPool_p0 sample_p0 = 6" "transferCommandPool_p0 sample_p0 = 8"
    by (simp_all add: sample_def sample_p0_def)
  with a b show ?thesis
    by (simp add: sample_rebuilt sample_p0_rebuilt)
qed

section \<open>Framebuffers and swap-chain images\<close>

text \<open>
  C6. After any swap-chain recreation that completes, and after any sequence of iterations
  of the frame loop (with their resize events and stale statuses) that started with equal
  counts, the number of framebuffers equals the number of swap-chain images, and so does
  the number of image views; after a recreation, image view \<open>i\<close> is the one created for
  swap-chain image \<open>i\<close>. The image views come from the constructor of \<open>ImageViews\<close>; the
  framebuffers from the constructor of \<open>FrameBuffers\<close> as the specification describes
  it.
\<close>

theorem framebuffer_count_equals_image_count:
  "(recreateSwapChain drv s = Returns u s' \<longrightarrow>
      (\<exists>sc iv fb. m_swapChain s' = Some sc \<and> m_imageViews s' = Some iv \<and> m_frameBuffers s' = Some fb
         \<and> SwapChain_ret drv = Inr sc
         \<and> length (swapChainFrameBuffers fb) = length (swapChainImages sc)
         \<and> length (swapChainImageViews iv) = length (swapChainImages sc)
         \<and> swapChainImageViews iv
             = map (\<lambda>image. snd (vkCreateImageView_ret drv image)) (swapChainImages sc)))
   \<and> (counts_agree t \<and> frame_loop M fs t = Returns v t' \<longrightarrow>
      (\<exists>sc iv fb. m_swapChain t' = Some sc \<and> m_imageViews t' = Some iv \<and> m_frameBuffers t' = Some fb
         \<and> length (swapChainFrameBuffers fb) = length (swapChainImages sc)
         \<and> length (swapChainImageViews iv) = length (swapChainImages sc)))"
proof (intro conjI impI)
  assume r: "recreateSwapChain drv s = Returns u s'"
  from recreateSwapChain_Returns(2,3) [OF r] recreateSwapChain_Returns_views [OF r]
  show "\<exists>sc iv fb. m_swapChain s' = Some sc \<and> m_imageViews s' = Some iv \<and> m_frameBuffers s' = Some fb
         \<and> SwapChain_ret drv = Inr sc
         \<and> length (swapChainFrameBuffers fb) = length (swapChainImages sc)
         \<and> length (swapChainImageViews iv) = length (swapChainImages sc)
         \<and> swapChainImageViews iv
             = map (\<lambda>image. snd (vkCreateImageView_ret drv image)) (swapChainImages sc)"
    by (auto simp: counts_agree_def split: option.splits)
next
  assume "counts_agree t \<and> frame_loop M fs t = Returns v t'"
  then have "counts_agree t'" using frame_loop_counts by blast
  then show "\<exists>sc iv fb. m_swapChain t' = Some sc \<and> m_imageViews t' = Some iv \<and> m_frameBuffers t' = Some fb
         \<and> length (swapChainFrameBuffers fb) = length (swapChainImages sc)
         \<and> length (swapChainImageViews iv) = length (swapChainImages sc)"
    by (auto simp: counts_agree_def split: option.splits)
qed

theorem framebuffer_count_equals_image_count_witness:
  "recreateSwapChain two_images sample = Returns () (state_of (recreateSwapChain two_images sample))
   \<and> counts_agree (state_of (recreateSwapChain two_images sample))
   \<and> counts_agree sample
   \<and> frame_loop 2 [resize_frame, stale_frame, steady_frame] sample =
       Returns () (state_of (frame_loop 2 [resize_frame, stale_frame, steady_frame] sample))
   \<and> counts_agree (state_of (frame_loop 2 [resize_frame, stale_frame, steady_frame] sample))"
proof -
  have a: "recreateSwapChain two_images sample = Returns () (state_of (recreateSwapChain two_images sample))"
    by (simp add: sample_rebuilt)
  have b: "counts_agree sample" by (simp add: counts_agree_def sample_def)
  have c: "frame_loop 2 [resize_frame, stale_frame, steady_frame] sample =
       Returns () (state_of (frame_loop 2 [resize_frame, stale_frame, steady_frame] sample))"
    using resizes_run by blast
  from framebuffer_count_equals_image_count
    [where drv = two_images and s = sample, THEN conjunct1, rule_format, OF a]
  have d: "counts_agree (state_of (recreateSwapChain two_images sample))"
    by (auto simp: counts_agree_def)
  from framebuffer_count_equals_image_count
    [where t = sample and M = 2 and fs = "[resize_frame, stale_frame, steady_frame]",
     THEN conjunct2, rule_format, OF conjI [OF b c]]
  have e: "counts_agree (state_of (frame_loop 2 [resize_frame, stale_frame, steady_frame] sample))"
    by (auto simp: counts_agree_def)
  from a b c d e show ?thesis by blast
qed

section \<open>The frame slot\<close>

text \<open>
  C7. The frame index stays in \<open>[0, MAX_FRAMES_IN_FLIGHT)\<close> and every iteration of the
  frame loop that completes advances it by exactly one modulo \<open>MAX_FRAMES_IN_FLIGHT\<close>,
  whatever image index the acquire gave: the new index is a function of the old one only.
  With \<open>MAX_FRAMES_IN_FLIGHT = 2\<close>, a first slot \<open>0\<close> and iterations without resize or
  stale status, the fence waits alternate between slots \<open>0\<close> and \<open>1\<close>.
\<close>

theorem frame_slot_advances_by_one:
  "(0 < M \<and> renderFrame M f s = Returns u s' \<longrightarrow>
      frameIndex s' < M \<and> frameIndex s' = (frameIndex s + 1) mod M)
   \<and> (frameIndex s < M \<and> renderFrame M f s = Returns u s' \<longrightarrow>
      unat (frameIndex s') = (unat (frameIndex s) + 1) mod unat M)
   \<and> (0 < M \<and> frameIndex t < M \<longrightarrow> frameIndex (state_of (frame_loop M fs t)) < M)
   \<and> (frameIndex t = 0 \<and> \<not> framebufferResized t \<and> list_all steady fs \<longrightarrow>
      returned (frame_loop 2 fs t)
      \<and> fence_waits (calls (state_of (frame_loop 2 fs t)))
          = fence_waits (calls t) @ map (\<lambda>j. of_nat (j mod 2)) [0..<length fs])"
proof (intro conjI impI)
  assume a: "0 < M \<and> renderFrame M f s = Returns u s'"
  then have e: "frameIndex s' = (frameIndex s + 1) mod M"
    using renderFrame_Returns_frameIndex [of M f s u s'] by simp
  then show "frameIndex s' = (frameIndex s + 1) mod M" .
  from a slot_in_range [of M "frameIndex s"] e show "frameIndex s' < M" by simp
next
  assume a: "frameIndex s < M \<and> renderFrame M f s = Returns u s'"
  then have "frameIndex s' = (frameIndex s + 1) mod M"
    using renderFrame_Returns_frameIndex [of M f s u s'] by simp
  with a slot_advance [of "frameIndex s" M]
  show "unat (frameIndex s') = (unat (frameIndex s) + 1) mod unat M" by simp
next
  assume "0 < M \<and> frameIndex t < M"
  then show "frameIndex (state_of (frame_loop M fs t)) < M"
    using frame_loop_frameIndex [of M t fs] by simp
next
  assume a: "frameIndex t = 0 \<and> \<not> framebufferResized t \<and> list_all steady fs"
  then have k: "frameIndex t < 2" by simp
  from a frame_loop_steady [of fs t 2, OF _ _ k]
  show "returned (frame_loop 2 fs t)"
    and "fence_waits (calls (state_of (frame_loop 2 fs t)))
          = fence_waits (calls t) @ map (\<lambda>j. of_nat (j mod 2)) [0..<length fs]"
    by simp_all
qed

theorem frame_slot_advances_by_one_witness:
  "renderFrame 2 steady_frame sample = Returns () (state_of (renderFrame 2 steady_frame sample))
   \<and> frameIndex (state_of (renderFrame 2 steady_frame sample)) = 1
   \<and> frameIndex (state_of (frame_loop 2 (replicate 10 steady_frame) sample)) < 2
   \<and> returned (frame_loop 2 (replicate 10 steady_frame) sample)
   \<and> fence_waits (calls (state_of (frame_loop 2 (replicate 10 steady_frame) sample)))
       = [0, 1, 0, 1, 0, 1, 0, 1, 0, 1]"
proof -
  note T = frame_slot_advances_by_one
    [where M = 2 and f = steady_frame and s = sample and t = sample
       and fs = "replicate 10 steady_frame" and u = "()"
       and s' = "state_of (renderFrame 2 steady_frame sample)"]
  have st: "steady steady_frame" by (simp add: steady_def steady_frame_def)
  have nr: "\<not> framebufferResized sample" and k0: "frameIndex sample = 0"
    by (simp_all add: sample_def)
  have r: "renderFrame 2 steady_frame sample
      = Returns () (state_of (renderFrame 2 steady_frame sample))"
    by (simp add: renderFrame_steady [OF st nr])
  have all: "list_all steady (replicate 10 steady_frame)"
    using st by (simp add: list_all_iff)
  have c1: "frameIndex (state_of (renderFrame 2 steady_frame sample)) = (frameIndex sample + 1) mod 2"
    using T [THEN conjunct1] r by simp
  have c3: "frameIndex (state_of (frame_loop 2 (replicate 10 steady_frame) sample)) < 2"
    using T [THEN conjunct2, THEN conjunct2, THEN conjunct1] k0 by simp
  have c4: "returned (frame_loop 2 (replicate 10 steady_frame) sample)
      \<and> fence_waits (calls (state_of (frame_loop 2 (replicate 10 steady_frame) sample)))
          = fence_waits (calls sample)
              @ map (\<lambda>j. of_nat (j mod 2)) [0..<length (replicate 10 steady_frame)]"
    using T [THEN conjunct2, THEN conjunct2, THEN conjunct2] k0 nr all by blast
  have m: "map (\<lambda>j. of_nat (j mod 2) :: 32 word) [0..<length (replicate 10 steady_frame)]
      = [0, 1, 0, 1, 0, 1, 0, 1, 0, 1]"
    by (simp add: upt_rec)
  have e: "fence_waits (calls sample) = []" by (simp add: sample_def fence_waits_def)
  from c1 k0 have "frameIndex (state_of (renderFrame 2 steady_frame sample)) = 1" by simp
  with r c3 c4 show ?thesis unfolding m e by simp
qed

section \<open>A rebuild while the window is minimized\<close>

text \<open>
  C8. During a rebuild with the window minimized, swap-chain creation is not attempted
  while the observed framebuffer extent is zero. If every size query answers an extent
  without area, \<open>recreateSwapChain\<close> never returns. If query \<open>n\<close> is the first with an
  area, it returns, and its calls are: the size queries up to query \<open>n\<close>, then
  \<open>vkDeviceWaitIdle\<close>, then the destroy calls, and only then the creation of the swap
  chain and of what depends on it.
\<close>

theorem recreateSwapChain_p0_waits_for_area:
  "((\<forall>j. zero_area (framebufferSize drv j)) \<longrightarrow> recreateSwapChain_p0 drv s = None)
   \<and> ((\<forall>j<n. zero_area (framebufferSize drv j)) \<and> \<not> zero_area (framebufferSize drv n) \<longrightarrow>
        (\<exists>out tl. recreateSwapChain_p0 drv s = Some out
           \<and> calls_p0 (state_of out) =
               calls_p0 s @ size_queries (framebufferSize drv) n
                 @ vkDeviceWaitIdle # map vkDestroyFramebuffer (swapChainFrameBuffers_p0 s)
                 @ map vkDestroyImageView (swapChainImageViews_p0 s)
                 @ [vkDestroySwapchainKHR (swapChain_p0 s), SwapChain_createSwapChain] @ tl
           \<and> (tl = [] \<or> tl = [ImageViews_createImageViews]
                \<or> tl = [ImageViews_createImageViews, FrameBuffers_createFrameBuffers])))"
proof (intro conjI impI)
  assume "\<forall>j. zero_area (framebufferSize drv j)"
  then show "recreateSwapChain_p0 drv s = None" by (rule recreateSwapChain_p0_blocks)
next
  assume h: "(\<forall>j<n. zero_area (framebufferSize drv j)) \<and> \<not> zero_area (framebufferSize drv n)"
  let ?s = "s\<lparr>calls_p0 := calls_p0 s @ size_queries (framebufferSize drv) n\<rparr>"
  from h have eq: "recreateSwapChain_p0 drv s = Some (rebuild_p0 drv ?s)"
    by (intro recreateSwapChain_p0_eq) auto
  from rebuild_p0_calls [of drv ?s] eq
  show "\<exists>out tl. recreateSwapChain_p0 drv s = Some out
           \<and> calls_p0 (state_of out) =
               calls_p0 s @ size_queries (framebufferSize drv) n
                 @ vkDeviceWaitIdle # map vkDestroyFramebuffer (swapChainFrameBuffers_p0 s)
                 @ map vkDestroyImageView (swapChainImageViews_p0 s)
                 @ [vkDestroySwapchainKHR (swapChain_p0 s), SwapChain_createSwapChain] @ tl
           \<and> (tl = [] \<or> tl = [ImageViews_createImageViews]
                \<or> tl = [ImageViews_createImageViews, FrameBuffers_createFrameBuffers])"
    by auto
qed

theorem recreateSwapChain_p0_waits_for_area_witness:
  "recreateSwapChain_p0 always_minimized sample_p0 = None
   \<and> map_option (\<lambda>out. calls_p0 (state_of out)) (recreateSwapChain_p0 minimized_twice sample_p0)
       = Some [glfwGetFramebufferSize 0 0,
               glfwGetFramebufferSize 0 0, glfwWaitEvents,
               glfwGetFramebufferSize 800 600, glfwWaitEvents,
               vkDeviceWaitIdle,
               vkDestroyFramebuffer 21, vkDestroyFramebuffer 22,
               vkDestroyImageView 11, vkDestroyImageView 12,
               vkDestroySwapchainKHR 7,
               SwapChain_createSwapChain, ImageViews_createImageViews,
               FrameBuffers_createFrameBuffers]"
proof -
  have a: "\<forall>j. zero_area (framebufferSize always_minimized j)"
    by (simp add: always_minimized_def minimized_twice_def zero_area_def)
  have b: "(\<forall>j<2. zero_area (framebufferSize minimized_twice j))
      \<and> \<not> zero_area (framebufferSize minimized_twice 2)"
    by (simp add: minimized_twice_def zero_area_def)
  from recreateSwapChain_p0_waits_for_area [where drv = always_minimized and s = sample_p0 and n = 2] a
  have 1: "recreateSwapChain_p0 always_minimized sample_p0 = None" by blast
  from recreateSwapChain_p0_waits_for_area [where drv = minimized_twice and s = sample_p0 and n = 2] b
  obtain out tl where o: "recreateSwapChain_p0 minimized_twice sample_p0 = Some out"
    and c: "calls_p0 (state_of out) =
               calls_p0 sample_p0 @ size_queries (framebufferSize minimized_twice) 2
                 @ vkDeviceWaitIdle # map vkDestroyFramebuffer (swapChainFrameBuffers_p0 sample_p0)
                 @ map vkDestroyImageView (swapChainImageViews_p0 sample_p0)
                 @ [vkDestroySwapchainKHR (swapChain_p0 sample_p0), SwapChain_createSwapChain] @ tl"
    by blast
  have e: "recreateSwapChain_p0 minimized_twice sample_p0 =
      Some (rebuild_p0 minimized_twice
             (sample_p0\<lparr>calls_p0 := calls_p0 sample_p0 @ size_queries (framebufferSize minimized_twice) 2\<rparr>))"
    using b by (intro recreateSwapChain_p0_eq) auto
  have r: "returned (rebuild_p0 minimized_twice
             (sample_p0\<lparr>calls_p0 := calls_p0 sample_p0 @ size_queries (framebufferSize minimized_twice) 2\<rparr>))"
    by (simp add: rebuild_p0_def Let_def minimized_twice_def)
  then obtain u s' where "out = Returns u s'" using o e by (cases out) auto
  with o e rebuild_p0_Returns_calls [of minimized_twice _ u s']
  have "calls_p0 (state_of out) =
          calls_p0 sample_p0 @ size_queries (framebufferSize minimized_twice) 2
            @ vkDeviceWaitIdle # map vkDestroyFramebuffer (swapChainFrameBuffers_p0 sample_p0)
            @ map vkDestroyImageView (swapChainImageViews_p0 sample_p0)
            @ [vkDestroySwapchainKHR (swapChain_p0 sample_p0), SwapChain_createSwapChain,
               ImageViews_createImageViews, FrameBuffers_createFrameBuffers]"
    by simp
  then have "calls_p0 (state_of out) = [glfwGetFramebufferSize 0 0,
               glfwGetFramebufferSize 0 0, glfwWaitEvents,
               glfwGetFramebufferSize 800 600, glfwWaitEvents,
               vkDeviceWaitIdle,
               vkDestroyFramebuffer 21, vkDestroyFramebuffer 22,
               vkDestroyImageView 11, vkDestroyImageView 12,
               vkDestroySwapchainKHR 7,
               SwapChain_createSwapChain, ImageViews_createImageViews,
               FrameBuffers_createFrameBuffers]"
    by (simp add: sample_p0_def size_queries_def polls_def minimized_twice_def upt_rec)
  with 1 o show ?thesis by simp
qed

section \<open>Destroying twice\<close>

text \<open>
  C9. Calling the destroy operation twice in a row should be a no-op the second time, with
  no double free. \<open>destroySwapChain\<close> sets the framebuffer and image view handles to
  \<open>VK_NULL_HANDLE\<close> but keeps the swap-chain handle: on the sample state the second call
  destroys framebuffers and image views as null handles (which does nothing) and passes
  the swap-chain handle \<open>7\<close>, destroyed by the first call, to \<open>vkDestroySwapchainKHR\<close> once
  more. That call is the one double destroy of the sequence.
\<close>

theorem destroySwapChain_twice_destroys_swap_chain_again:
  "calls_p0 (destroySwapChain (destroySwapChain sample_p0)) =
     [vkDestroyFramebuffer 21, vkDestroyFramebuffer 22,
      vkDestroyImageView 11, vkDestroyImageView 12, vkDestroySwapchainKHR 7,
      vkDestroyFramebuffer 0, vkDestroyFramebuffer 0,
      vkDestroyImageView 0, vkDestroyImageView 0, vkDestroySwapchainKHR 7]
   \<and> double_destroys [] (calls_p0 (destroySwapChain (destroySwapChain sample_p0)))
       = [vkDestroySwapchainKHR 7]"
  by (simp add: destroySwapChain_eq sample_p0_def VK_NULL_HANDLE_def)

section \<open>What the destroy operation leaves\<close>

text \<open>
  C10. After \<open>destroySwapChain\<close>, every element of the framebuffer vector and of the image
  view vector is \<open>VK_NULL_HANDLE\<close> and both vectors have the size they had; the swap-chain
  handle is the one it was, not nulled. The destructor of \<open>ImageViews\<close> leaves its vector
  the same way.
\<close>

theorem destroySwapChain_nulls_vectors:
  "swapChainFrameBuffers_p0 (destroySwapChain s)
     = replicate (length (swapChainFrameBuffers_p0 s)) VK_NULL_HANDLE
   \<and> length (swapChainFrameBuffers_p0 (destroySwapChain s)) = length (swapChainFrameBuffers_p0 s)
   \<and> swapChainImageViews_p0 (destroySwapChain s)
     = replicate (length (swapChainImageViews_p0 s)) VK_NULL_HANDLE
   \<and> length (swapChainImageViews_p0 (destroySwapChain s)) = length (swapChainImageViews_p0 s)
   \<and> swapChain_p0 (destroySwapChain s) = swapChain_p0 s
   \<and> swapChainImageViews (fst (ImageViews_dtor iv cs))
     = replicate (length (swapChainImageViews iv)) VK_NULL_HANDLE"
  by (simp add: destroySwapChain_eq ImageViews_dtor_def destroy_each_all)

end
